theory Spec2Isabelle
  imports Main "HOL-Library.Word"
begin

unbundle bit_operations_syntax

section \<open>Data model\<close>

text \<open>
  A shallow embedding of the event routing and window stacking of \<^verbatim>\<open>src/screen.cpp\<close>.
  Widgets are referred to by pointer in the source; here a pointer is a \<open>wid\<close>, the null
  pointer is \<open>None\<close>, and the attributes a pointer leads to are read from a store
  \<open>wid \<Rightarrow> widget\<close>. Only the attributes read by \<^verbatim>\<open>screen.cpp\<close> are kept.
\<close>

type_synonym wid = nat

type_synonym Vector2i = "int \<times> int"

definition vsub :: "Vector2i \<Rightarrow> Vector2i \<Rightarrow> Vector2i" where
  "vsub p q = (fst p - fst q, snd p - snd q)"

definition cdiv :: "int \<Rightarrow> int \<Rightarrow> int" where
  \<comment> \<open>Integer division of C++: the quotient is truncated towards zero.\<close>
  "cdiv a b = sgn a * sgn b * (\<bar>a\<bar> div \<bar>b\<bar>)"

definition vdiv :: "Vector2i \<Rightarrow> int \<Rightarrow> Vector2i" where
  "vdiv p r = (cdiv (fst p) r, cdiv (snd p) r)"

datatype Cursor = Arrow | IBeam | Crosshair | Hand | HResize | VResize

datatype kind = PlainWidget | WindowKind | PopupKind

record widget =
  w_parent :: "wid option"
  w_kind :: kind
  w_modal :: bool
  w_parentWindow :: "wid option"
  w_pos :: Vector2i
  w_size :: Vector2i
  w_focused :: bool
  w_cursor :: Cursor

definition isWindow :: "widget \<Rightarrow> bool" where
  \<comment> \<open>\<^verbatim>\<open>dynamic_cast<Window *>\<close> succeeds: Popup is derived from Window.\<close>
  "isWindow w = (w_kind w = WindowKind \<or> w_kind w = PopupKind)"

definition isPopup :: "widget \<Rightarrow> bool" where
  \<comment> \<open>\<^verbatim>\<open>dynamic_cast<Popup *>\<close> succeeds.\<close>
  "isPopup w = (w_kind w = PopupKind)"

definition contains :: "widget \<Rightarrow> Vector2i \<Rightarrow> bool" where
  \<comment> \<open>Modelled from the spec: \<^verbatim>\<open>Widget::contains\<close> is declared in widget.h, which is not
     among the source files. The bounds of a widget are the rectangle that starts at its
     position and has its size, the far edges excluded.\<close>
  "contains w p =
     (let d = vsub p (w_pos w)
      in 0 \<le> fst d \<and> 0 \<le> snd d \<and> fst d < fst (w_size w) \<and> snd d < snd (w_size w))"

text \<open>
  The result of a call: it returns, it throws an exception derived from
  \<^verbatim>\<open>std::exception\<close> (the only kind the handlers of \<^verbatim>\<open>screen.cpp\<close> catch; the string is
  \<^verbatim>\<open>e.what()\<close>), or it dereferences a null pointer or divides by zero, which is undefined
  behaviour in C++ and is kept apart as \<open>Crash\<close>.
\<close>

datatype 'a outcome = Returns 'a | Throws string | Crash

text \<open>Every callback the screen invokes on a widget is recorded, with its receiver.\<close>

datatype call =
    FocusEvent wid bool
  | KeyboardEvent wid int int int int
  | KeyboardCharacterEvent wid nat
  | MouseButtonEvent wid Vector2i nat bool "32 word"
  | MouseDragEvent wid Vector2i Vector2i "32 word" "32 word"
  | MouseMotionEvent wid Vector2i Vector2i "32 word" "32 word"
  | ScrollEvent wid Vector2i Vector2i
  | DropEvent wid "string list"
  | ResizeCallback Vector2i

text \<open>
  The widget tree's own methods (\<^verbatim>\<open>Widget::findWidget\<close>, \<^verbatim>\<open>Widget::absolutePosition\<close> and the
  virtual event handlers) are not part of \<^verbatim>\<open>screen.cpp\<close>; they are parameters of the model.
  An event handler is given by the outcome it produces for a receiver and its arguments;
  \<open>on_focusEvent\<close> gives, with its outcome, the widgets' attributes as the handler leaves
  them (the handler of the base class stores the focus flag), also when it throws. A handler
  does not call back into the screen: the members of the screen
  change only where \<^verbatim>\<open>screen.cpp\<close> assigns them, and a loop over the focus path runs over
  the path as it was when the loop began. \<open>osScaling\<close> is the preprocessor condition
  \<^verbatim>\<open>defined(_WIN32) || defined(__linux__)\<close>.
\<close>

record callbacks =
  findWidget :: "(wid \<Rightarrow> widget) \<Rightarrow> wid list \<Rightarrow> Vector2i \<Rightarrow> wid option"
  absolutePosition :: "(wid \<Rightarrow> widget) \<Rightarrow> wid \<Rightarrow> Vector2i"
  on_focusEvent :: "wid \<Rightarrow> bool \<Rightarrow> (wid \<Rightarrow> widget) \<Rightarrow> bool outcome \<times> (wid \<Rightarrow> widget)"
  on_keyboardEvent :: "wid \<Rightarrow> int \<Rightarrow> int \<Rightarrow> int \<Rightarrow> int \<Rightarrow> bool outcome"
  on_keyboardCharacterEvent :: "wid \<Rightarrow> nat \<Rightarrow> bool outcome"
  on_mouseButtonEvent :: "wid \<Rightarrow> Vector2i \<Rightarrow> nat \<Rightarrow> bool \<Rightarrow> 32 word \<Rightarrow> bool outcome"
  on_mouseDragEvent :: "wid \<Rightarrow> Vector2i \<Rightarrow> Vector2i \<Rightarrow> 32 word \<Rightarrow> 32 word \<Rightarrow> bool outcome"
  on_mouseMotionEvent :: "wid \<Rightarrow> Vector2i \<Rightarrow> Vector2i \<Rightarrow> 32 word \<Rightarrow> 32 word \<Rightarrow> bool outcome"
  on_scrollEvent :: "wid \<Rightarrow> Vector2i \<Rightarrow> Vector2i \<Rightarrow> bool outcome"
  on_dropEvent :: "wid \<Rightarrow> string list \<Rightarrow> bool outcome"
  mResizeCallback :: "(Vector2i \<Rightarrow> unit outcome) option"
  osScaling :: bool

text \<open>
  The screen: \<open>self\<close> is \<^verbatim>\<open>this\<close>, \<open>mChildren\<close> and \<open>mSize\<close> are the members the screen
  inherits from Widget, \<open>mLastInteraction\<close> holds the tick count it was computed from,
  \<open>mPixelRatio\<close> the pixel ratio as the integer vectors divide by it, \<open>calls\<close> the callbacks
  invoked so far and \<open>cerr\<close> the lines written to the diagnostic stream.
\<close>

record screen =
  self :: wid
  widgets :: "wid \<Rightarrow> widget"
  mChildren :: "wid list"
  mFocusPath :: "wid list"
  mDragActive :: bool
  mDragWidget :: "wid option"
  mMousePos :: Vector2i
  mMouseState :: "32 word"
  mModifiers :: "32 word"
  mCursor :: Cursor
  mLastInteraction :: nat
  mSize :: Vector2i
  mFBSize :: Vector2i
  mPixelRatio :: int
  calls :: "call list"
  cerr :: "string list"

definition SDL_MOUSEBUTTONDOWN :: int where
  "SDL_MOUSEBUTTONDOWN = 1025"

definition SDL_MOUSEBUTTONUP :: int where
  "SDL_MOUSEBUTTONUP = 1026"

definition invoke :: "call \<Rightarrow> 'a outcome \<Rightarrow> screen \<Rightarrow> 'a outcome \<times> screen" where
  "invoke c r s = (r, s\<lparr>calls := calls s @ [c]\<rparr>)"

definition catchException :: "bool outcome \<times> screen \<Rightarrow> bool outcome \<times> screen" where
  \<comment> \<open>\<^verbatim>\<open>catch (const std::exception &e)\<close>: log and return false.\<close>
  "catchException rs =
     (case fst rs of
        Throws e \<Rightarrow>
          (Returns False,
           (snd rs)\<lparr>cerr := cerr (snd rs) @ [''Caught exception in event handler: '' @ e]\<rparr>)
      | _ \<Rightarrow> rs)"

definition bindOutcome ::
  "'a outcome \<times> screen \<Rightarrow> ('a \<Rightarrow> screen \<Rightarrow> 'b outcome \<times> screen) \<Rightarrow> 'b outcome \<times> screen" where
  \<comment> \<open>Sequencing: an exception or a crash ends the sequence with the state reached.\<close>
  "bindOutcome rs f =
     (case fst rs of
        Returns v \<Rightarrow> f v (snd rs)
      | Throws e \<Rightarrow> (Throws e, snd rs)
      | Crash \<Rightarrow> (Crash, snd rs))"

section \<open>Window stacking\<close>

definition findBaseIndex :: "wid list \<Rightarrow> wid \<Rightarrow> nat" where
  \<comment> \<open>The first \<^verbatim>\<open>for\<close> loop of the \<^verbatim>\<open>do\<close> body: the last index that holds the window, else 0.\<close>
  "findBaseIndex cs window =
     fold (\<lambda>index baseIndex. if cs ! index = window then index else baseIndex)
       [0..<length cs] 0"

definition findPopupBehind :: "(wid \<Rightarrow> widget) \<Rightarrow> wid \<Rightarrow> nat \<Rightarrow> wid list \<Rightarrow> wid option" where
  \<comment> \<open>The second \<^verbatim>\<open>for\<close> loop: the first child that is a popup of the window and lies
     before \<open>baseIndex\<close>.\<close>
  "findPopupBehind ws window baseIndex cs =
     map_option (\<lambda>index. cs ! index)
       (find (\<lambda>index. isPopup (ws (cs ! index))
                    \<and> w_parentWindow (ws (cs ! index)) = Some window
                    \<and> index < baseIndex) [0..<length cs])"

text \<open>
  \<open>popupLoop\<close> is the \<^verbatim>\<open>do ... while (changed)\<close> loop of \<^verbatim>\<open>moveWindowToFront\<close>. The
  recursive call \<^verbatim>\<open>moveWindowToFront(pw)\<close> is written out as what it does: erase \<open>pw\<close>, push
  it back, run the loop for \<open>pw\<close>. Not returning is the value \<open>None\<close>.
\<close>

partial_function (option) popupLoop :: "(wid \<Rightarrow> widget) \<Rightarrow> wid \<Rightarrow> wid list \<Rightarrow> wid list option" where
  "popupLoop ws window cs =
     (case findPopupBehind ws window (findBaseIndex cs window) cs of
        None \<Rightarrow> Some cs
      | Some pw \<Rightarrow>
          Option.bind (popupLoop ws pw (removeAll pw cs @ [pw]))
            (\<lambda>cs'. popupLoop ws window cs'))"

declare popupLoop.simps [code]

definition moveWindowToFront :: "(wid \<Rightarrow> widget) \<Rightarrow> wid \<Rightarrow> wid list \<Rightarrow> wid list option" where
  "moveWindowToFront ws window cs = popupLoop ws window (removeAll window cs @ [window])"

definition Screen_moveWindowToFront :: "wid \<Rightarrow> screen \<Rightarrow> screen option" where
  "Screen_moveWindowToFront window s =
     map_option (\<lambda>cs. s\<lparr>mChildren := cs\<rparr>) (moveWindowToFront (widgets s) window (mChildren s))"

section \<open>Focus path\<close>

definition focusEvent :: "callbacks \<Rightarrow> wid \<Rightarrow> bool \<Rightarrow> screen \<Rightarrow> bool outcome \<times> screen" where
  \<comment> \<open>\<^verbatim>\<open>w->focusEvent(b)\<close>: the call is recorded, the attributes are as the handler leaves
     them, and the outcome is the handler's.\<close>
  "focusEvent cb w b s =
     invoke (FocusEvent w b) (fst (on_focusEvent cb w b (widgets s)))
       (s\<lparr>widgets := snd (on_focusEvent cb w b (widgets s))\<rparr>)"

fun focusLost :: "callbacks \<Rightarrow> wid list \<Rightarrow> screen \<Rightarrow> unit outcome \<times> screen" where
  "focusLost cb [] s = (Returns (), s)"
| "focusLost cb (w # rest) s =
     (if \<not> w_focused (widgets s w) then focusLost cb rest s
      else bindOutcome (focusEvent cb w False s) (\<lambda>_ s'. focusLost cb rest s'))"

fun focusGained :: "callbacks \<Rightarrow> wid list \<Rightarrow> screen \<Rightarrow> unit outcome \<times> screen" where
  "focusGained cb [] s = (Returns (), s)"
| "focusGained cb (w # rest) s =
     bindOutcome (focusEvent cb w True s) (\<lambda>_ s'. focusGained cb rest s')"

partial_function (option) walkUp ::
  "(wid \<Rightarrow> widget) \<Rightarrow> wid option \<Rightarrow> wid list \<Rightarrow> wid option \<Rightarrow> (wid list \<times> wid option) option" where
  "walkUp ws widget path window =
     (case widget of
        None \<Rightarrow> Some (path, window)
      | Some w \<Rightarrow>
          walkUp ws (w_parent (ws w)) (path @ [w])
            (if isWindow (ws w) then Some w else window))"

declare walkUp.simps [code]

definition updateFocus ::
  "callbacks \<Rightarrow> wid option \<Rightarrow> screen \<Rightarrow> (unit outcome \<times> screen) option" where
  \<comment> \<open>An exception of a focus handler leaves \<^verbatim>\<open>updateFocus\<close> at the call that threw, with
     the members as they are then.\<close>
  "updateFocus cb widget s =
     (let r1 = focusLost cb (mFocusPath s) s
      in case fst r1 of
           Throws e \<Rightarrow> Some (Throws e, snd r1)
         | Crash \<Rightarrow> Some (Crash, snd r1)
         | Returns _ \<Rightarrow>
             (let s2 = (snd r1)\<lparr>mFocusPath := []\<rparr>
              in case walkUp (widgets s2) widget (mFocusPath s2) None of
                   None \<Rightarrow> None
                 | Some (path, window) \<Rightarrow>
                     (let s3 = s2\<lparr>mFocusPath := path\<rparr>;
                          r4 = focusGained cb (rev (mFocusPath s3)) s3
                      in case fst r4 of
                           Throws e \<Rightarrow> Some (Throws e, snd r4)
                         | Crash \<Rightarrow> Some (Crash, snd r4)
                         | Returns _ \<Rightarrow>
                             (case window of
                                None \<Rightarrow> Some (Returns (), snd r4)
                              | Some win \<Rightarrow>
                                  map_option (\<lambda>s5. (Returns (), s5))
                                    (Screen_moveWindowToFront win (snd r4))))))"

definition removeChild :: "wid \<Rightarrow> screen \<Rightarrow> screen" where
  \<comment> \<open>Modelled from the spec: \<^verbatim>\<open>Widget::removeChild\<close> is defined in widget.cpp, which is not
     among the source files; disposal removes the widget from its parent's child sequence.\<close>
  "removeChild w s = s\<lparr>mChildren := removeAll w (mChildren s)\<rparr>"

definition disposeWindow :: "wid \<Rightarrow> screen \<Rightarrow> screen" where
  "disposeWindow window s =
     (let s1 = (if window \<in> set (mFocusPath s) then s\<lparr>mFocusPath := []\<rparr> else s);
          s2 = (if mDragWidget s1 = Some window then s1\<lparr>mDragWidget := None\<rparr> else s1)
      in removeChild window s2)"

section \<open>Dispatch\<close>

fun dispatchFocused ::
  "(wid \<Rightarrow> bool outcome) \<Rightarrow> (wid \<Rightarrow> call) \<Rightarrow> wid list \<Rightarrow> screen \<Rightarrow> bool outcome \<times> screen" where
  "dispatchFocused h mk [] s = (Returns False, s)"
| "dispatchFocused h mk (w # rest) s =
     (if w_focused (widgets s w)
      then bindOutcome (invoke (mk w) (h w) s)
             (\<lambda>handled s'. if handled then (Returns True, s') else dispatchFocused h mk rest s')
      else dispatchFocused h mk rest s)"

definition keyboardEvent ::
  "callbacks \<Rightarrow> int \<Rightarrow> int \<Rightarrow> int \<Rightarrow> int \<Rightarrow> screen \<Rightarrow> bool outcome \<times> screen" where
  \<comment> \<open>The loop runs from \<^verbatim>\<open>mFocusPath.rbegin() + 1\<close> to \<^verbatim>\<open>mFocusPath.rend()\<close>.\<close>
  "keyboardEvent cb key scancode action modifiers s =
     (if length (mFocusPath s) > 0
      then dispatchFocused (\<lambda>w. on_keyboardEvent cb w key scancode action modifiers)
             (\<lambda>w. KeyboardEvent w key scancode action modifiers) (tl (rev (mFocusPath s))) s
      else (Returns False, s))"

definition keyboardCharacterEvent :: "callbacks \<Rightarrow> nat \<Rightarrow> screen \<Rightarrow> bool outcome \<times> screen" where
  "keyboardCharacterEvent cb codepoint s =
     (if length (mFocusPath s) > 0
      then dispatchFocused (\<lambda>w. on_keyboardCharacterEvent cb w codepoint)
             (\<lambda>w. KeyboardCharacterEvent w codepoint) (tl (rev (mFocusPath s))) s
      else (Returns False, s))"

definition resizeEvent :: "callbacks \<Rightarrow> Vector2i \<Rightarrow> screen \<Rightarrow> bool outcome \<times> screen" where
  "resizeEvent cb sz s =
     (case mResizeCallback cb of
        Some f \<Rightarrow> bindOutcome (invoke (ResizeCallback sz) (f sz) s) (\<lambda>_ s'. (Returns True, s'))
      | None \<Rightarrow> (Returns False, s))"

definition updateCursor :: "wid option \<Rightarrow> screen \<Rightarrow> screen" where
  \<comment> \<open>\<^verbatim>\<open>if (widget != nullptr && widget->cursor() != mCursor) mCursor = widget->cursor();\<close>
     (the call of \<^verbatim>\<open>SDL_SetCursor\<close> that follows has no effect on the screen's members).\<close>
  "updateCursor widget s =
     (case widget of
        None \<Rightarrow> s
      | Some w \<Rightarrow>
          if w_cursor (widgets s w) \<noteq> mCursor s then s\<lparr>mCursor := w_cursor (widgets s w)\<rparr>
          else s)"

definition dragOrigin :: "callbacks \<Rightarrow> screen \<Rightarrow> (wid \<times> Vector2i) outcome" where
  \<comment> \<open>\<^verbatim>\<open>mDragWidget->parent()->absolutePosition()\<close>: both pointers are dereferenced
     unchecked.\<close>
  "dragOrigin cb s =
     (case mDragWidget s of
        None \<Rightarrow> Crash
      | Some d \<Rightarrow>
          (case w_parent (widgets s d) of
             None \<Rightarrow> Crash
           | Some par \<Rightarrow> Returns (d, absolutePosition cb (widgets s) par)))"

definition cursorPosBody :: "callbacks \<Rightarrow> Vector2i \<Rightarrow> screen \<Rightarrow> bool outcome \<times> screen" where
  "cursorPosBody cb p0 s =
     (let p = vsub p0 (1, 2)
      in bindOutcome
           (if \<not> mDragActive s
            then (Returns False, updateCursor (findWidget cb (widgets s) (mChildren s) p) s)
            else bindOutcome (dragOrigin cb s, s)
                   (\<lambda>(d, origin) s'.
                      invoke (MouseDragEvent d (vsub p origin) (vsub p (mMousePos s'))
                                (mMouseState s') (mModifiers s'))
                        (on_mouseDragEvent cb d (vsub p origin) (vsub p (mMousePos s'))
                           (mMouseState s') (mModifiers s')) s'))
           (\<lambda>ret s1.
              bindOutcome
                (if \<not> ret
                 then invoke (MouseMotionEvent (self s1) p (vsub p (mMousePos s1))
                                (mMouseState s1) (mModifiers s1))
                        (on_mouseMotionEvent cb (self s1) p (vsub p (mMousePos s1))
                           (mMouseState s1) (mModifiers s1)) s1
                 else (Returns ret, s1))
                (\<lambda>ret2 s2. (Returns ret2, s2\<lparr>mMousePos := p\<rparr>))))"

definition cursorPosCallbackEvent ::
  "callbacks \<Rightarrow> int \<Rightarrow> int \<Rightarrow> nat \<Rightarrow> screen \<Rightarrow> bool outcome \<times> screen" where
  \<comment> \<open>\<open>x\<close> and \<open>y\<close> are the coordinates after the cast to \<^verbatim>\<open>int\<close>; \<open>ticks\<close> is
     \<^verbatim>\<open>SDL_GetTicks()\<close>.\<close>
  "cursorPosCallbackEvent cb x y ticks s =
     (if osScaling cb \<and> mPixelRatio s = 0 then (Crash, s)
      else
        let p0 = (if osScaling cb then vdiv (x, y) (mPixelRatio s) else (x, y))
        in catchException (cursorPosBody cb p0 (s\<lparr>mLastInteraction := ticks\<rparr>)))"

definition modalBlocks :: "screen \<Rightarrow> bool" where
  \<comment> \<open>The check that opens the \<^verbatim>\<open>try\<close> blocks of \<^verbatim>\<open>mouseButtonCallbackEvent\<close> and
     \<^verbatim>\<open>scrollCallbackEvent\<close>.\<close>
  "modalBlocks s =
     (length (mFocusPath s) > 1 \<and>
      (let window = widgets s (mFocusPath s ! (length (mFocusPath s) - 2))
       in isWindow window \<and> w_modal window \<and> \<not> contains window (mMousePos s)))"

definition mouseButtonDispatch :: "callbacks \<Rightarrow> nat \<Rightarrow> int \<Rightarrow> screen \<Rightarrow> bool outcome \<times> screen" where
  \<comment> \<open>The final \<^verbatim>\<open>return mouseButtonEvent(mMousePos, button, action == SDL_MOUSEBUTTONDOWN,
     mModifiers)\<close>, the handler the screen inherits from Widget.\<close>
  "mouseButtonDispatch cb button action s =
     invoke (MouseButtonEvent (self s) (mMousePos s) button (action = SDL_MOUSEBUTTONDOWN)
               (mModifiers s))
       (on_mouseButtonEvent cb (self s) (mMousePos s) button (action = SDL_MOUSEBUTTONDOWN)
          (mModifiers s)) s"

definition releaseDrag :: "callbacks \<Rightarrow> nat \<Rightarrow> screen \<Rightarrow> bool outcome \<times> screen" where
  \<comment> \<open>\<^verbatim>\<open>mDragWidget->mouseButtonEvent(mMousePos - mDragWidget->parent()->absolutePosition(),
     button, false, mModifiers)\<close>.\<close>
  "releaseDrag cb button s =
     bindOutcome (dragOrigin cb s, s)
       (\<lambda>(d, origin) s'.
          invoke (MouseButtonEvent d (vsub (mMousePos s') origin) button False (mModifiers s'))
            (on_mouseButtonEvent cb d (vsub (mMousePos s') origin) button False (mModifiers s'))
            s')"

definition mouseButtonBody ::
  "callbacks \<Rightarrow> nat \<Rightarrow> int \<Rightarrow> screen \<Rightarrow> (bool outcome \<times> screen) option" where
  \<comment> \<open>The \<^verbatim>\<open>try\<close> block of \<^verbatim>\<open>mouseButtonCallbackEvent\<close>. \<open>button\<close> is the index SDL reports
     (1 to 5); \<^verbatim>\<open>1 << button\<close> is taken in the 32 bits of \<^verbatim>\<open>int\<close>.\<close>
  "mouseButtonBody cb button action s =
     (if modalBlocks s then Some (Returns False, s)
      else
        let s1 = s\<lparr>mMouseState :=
                     (if action = SDL_MOUSEBUTTONDOWN
                      then mMouseState s OR push_bit button 1
                      else mMouseState s AND NOT (push_bit button 1))\<rparr>;
            dropWidget = findWidget cb (widgets s1) (mChildren s1) (mMousePos s1);
            r2 = (if mDragActive s1 \<and> action = SDL_MOUSEBUTTONUP \<and> dropWidget \<noteq> mDragWidget s1
                  then releaseDrag cb button s1
                  else (Returns False, s1))
        in case fst r2 of
             Throws e \<Rightarrow> Some (Throws e, snd r2)
           | Crash \<Rightarrow> Some (Crash, snd r2)
           | Returns _ \<Rightarrow>
               (let s3 = updateCursor dropWidget (snd r2)
                in if action = SDL_MOUSEBUTTONDOWN
                   then
                     (let hit = findWidget cb (widgets s3) (mChildren s3) (mMousePos s3);
                          s4 = s3\<lparr>mDragWidget := (if hit = Some (self s3) then None else hit)\<rparr>;
                          s5 = s4\<lparr>mDragActive := (mDragWidget s4 \<noteq> None)\<rparr>
                      in if \<not> mDragActive s5
                         then map_option
                                (\<lambda>r6. bindOutcome r6 (\<lambda>_. mouseButtonDispatch cb button action))
                                (updateFocus cb None s5)
                         else Some (mouseButtonDispatch cb button action s5))
                   else Some (mouseButtonDispatch cb button action
                                (s3\<lparr>mDragActive := False, mDragWidget := None\<rparr>))))"

definition mouseButtonCallbackEvent ::
  "callbacks \<Rightarrow> nat \<Rightarrow> int \<Rightarrow> 32 word \<Rightarrow> nat \<Rightarrow> screen \<Rightarrow> (bool outcome \<times> screen) option" where
  "mouseButtonCallbackEvent cb button action modifiers ticks s =
     map_option catchException
       (mouseButtonBody cb button action
          (s\<lparr>mModifiers := modifiers, mLastInteraction := ticks\<rparr>))"

definition keyCallbackEvent ::
  "callbacks \<Rightarrow> int \<Rightarrow> int \<Rightarrow> int \<Rightarrow> int \<Rightarrow> nat \<Rightarrow> screen \<Rightarrow> bool outcome \<times> screen" where
  "keyCallbackEvent cb key scancode action mods ticks s =
     catchException (keyboardEvent cb key scancode action mods (s\<lparr>mLastInteraction := ticks\<rparr>))"

definition charCallbackEvent :: "callbacks \<Rightarrow> nat \<Rightarrow> nat \<Rightarrow> screen \<Rightarrow> bool outcome \<times> screen" where
  "charCallbackEvent cb codepoint ticks s =
     catchException (keyboardCharacterEvent cb codepoint (s\<lparr>mLastInteraction := ticks\<rparr>))"

definition dropCallbackEvent ::
  "callbacks \<Rightarrow> nat \<Rightarrow> string list \<Rightarrow> screen \<Rightarrow> bool outcome \<times> screen" where
  \<comment> \<open>The first \<open>count\<close> names are copied; reading past the array is undefined behaviour.
     The call of \<^verbatim>\<open>dropEvent\<close> is not inside a \<^verbatim>\<open>try\<close> block.\<close>
  "dropCallbackEvent cb count filenames s =
     (if count \<le> length filenames
      then invoke (DropEvent (self s) (take count filenames))
             (on_dropEvent cb (self s) (take count filenames)) s
      else (Crash, s))"

definition scrollCallbackEvent ::
  "callbacks \<Rightarrow> int \<Rightarrow> int \<Rightarrow> nat \<Rightarrow> screen \<Rightarrow> bool outcome \<times> screen" where
  "scrollCallbackEvent cb x y ticks s =
     (let s1 = s\<lparr>mLastInteraction := ticks\<rparr>
      in catchException
           (if modalBlocks s1 then (Returns False, s1)
            else invoke (ScrollEvent (self s1) (mMousePos s1) (x, y))
                   (on_scrollEvent cb (self s1) (mMousePos s1) (x, y)) s1))"

definition resizeCallbackEvent ::
  "callbacks \<Rightarrow> Vector2i \<Rightarrow> Vector2i \<Rightarrow> nat \<Rightarrow> screen \<Rightarrow> bool outcome \<times> screen" where
  \<comment> \<open>\<open>fbSize\<close> and \<open>size0\<close> are what \<^verbatim>\<open>SDL_GL_GetDrawableSize\<close> and \<^verbatim>\<open>SDL_GetWindowSize\<close>
     report; the two \<^verbatim>\<open>int\<close> arguments of the source are unused.\<close>
  "resizeCallbackEvent cb fbSize size0 ticks s =
     (if osScaling cb \<and> mPixelRatio s = 0 then (Crash, s)
      else
        let sz = (if osScaling cb then vdiv size0 (mPixelRatio s) else size0)
        in if mFBSize s = (0, 0) \<or> sz = (0, 0) then (Returns False, s)
           else catchException
                  (resizeEvent cb sz (s\<lparr>mFBSize := fbSize, mSize := sz, mLastInteraction := ticks\<rparr>)))"

section \<open>Notions of the specification: ownership, the drag invariant, leaf-to-root dispatch\<close>

definition owns :: "(wid \<Rightarrow> widget) \<Rightarrow> wid set \<Rightarrow> (wid \<times> wid) set" where
  \<comment> \<open>\<open>(p, w)\<close>: the child \<open>p\<close> is a popup whose parent window is \<open>w\<close>.\<close>
  "owns ws S = {(p, w). p \<in> S \<and> isPopup (ws p) \<and> w_parentWindow (ws p) = Some w}"

definition dragInvariant :: "screen \<Rightarrow> bool" where
  \<comment> \<open>Drag-active implies that the drag widget is not null.\<close>
  "dragInvariant s = (mDragActive s \<longrightarrow> mDragWidget s \<noteq> None)"

definition keyboardEvent_leafToRoot ::
  "callbacks \<Rightarrow> int \<Rightarrow> int \<Rightarrow> int \<Rightarrow> int \<Rightarrow> screen \<Rightarrow> bool outcome \<times> screen" where
  \<comment> \<open>The walk as the specification words it: leaf to root in the stored order of the focus
     path, the root entry (the last one) skipped.\<close>
  "keyboardEvent_leafToRoot cb key scancode action modifiers s =
     dispatchFocused (\<lambda>w. on_keyboardEvent cb w key scancode action modifiers)
       (\<lambda>w. KeyboardEvent w key scancode action modifiers) (butlast (mFocusPath s)) s"

inductive ancestors :: "(wid \<Rightarrow> widget) \<Rightarrow> wid option \<Rightarrow> wid list \<Rightarrow> bool" for ws where
  ancestors_null: "ancestors ws None []"
| ancestors_step: "ancestors ws (w_parent (ws w)) c \<Longrightarrow> ancestors ws (Some w) (w # c)"

section \<open>A scene to run the model on\<close>

definition widgetFocusEvent ::
  "wid \<Rightarrow> bool \<Rightarrow> (wid \<Rightarrow> widget) \<Rightarrow> bool outcome \<times> (wid \<Rightarrow> widget)" where
  \<comment> \<open>Modelled from the spec: \<^verbatim>\<open>Widget::focusEvent\<close> is defined in widget.cpp, which is not
     among the source files; a widget's focused flag holds the last focus transition it
     received, and the handler returns.\<close>
  "widgetFocusEvent w b ws = (Returns False, ws(w := (ws w)\<lparr>w_focused := b\<rparr>))"

definition plainWidget :: widget where
  "plainWidget =
     \<lparr>w_parent = None, w_kind = PlainWidget, w_modal = False, w_parentWindow = None,
      w_pos = (0, 0), w_size = (0, 0), w_focused = False, w_cursor = Arrow\<rparr>"

definition demoWidgets :: "wid \<Rightarrow> widget" where
  \<comment> \<open>0 is the screen, 1 a modal window covering [0,0]-[100,100], 2 a text box inside it,
     3 and 4 two popups of window 1.\<close>
  "demoWidgets i =
     (if i = 0 then plainWidget\<lparr>w_size := (800, 600)\<rparr>
      else if i = 1 then
        plainWidget\<lparr>w_parent := Some 0, w_kind := WindowKind, w_modal := True,
                     w_size := (100, 100), w_focused := True\<rparr>
      else if i = 2 then
        plainWidget\<lparr>w_parent := Some 1, w_pos := (10, 10), w_size := (50, 20),
                     w_focused := True, w_cursor := IBeam\<rparr>
      else if i = 3 \<or> i = 4 then
        plainWidget\<lparr>w_parent := Some 0, w_kind := PopupKind, w_parentWindow := Some 1,
                     w_pos := (300, 300), w_size := (40, 40)\<rparr>
      else plainWidget\<lparr>w_parent := Some 0\<rparr>)"

definition hitTopLevel :: "(wid \<Rightarrow> widget) \<Rightarrow> wid list \<Rightarrow> Vector2i \<Rightarrow> wid option" where
  \<comment> \<open>A hit test over the children of the screen, topmost first; the screen (0) itself
     where no child contains the point.\<close>
  "hitTopLevel ws cs p =
     (case find (\<lambda>c. contains (ws c) p) (rev cs) of Some c \<Rightarrow> Some c | None \<Rightarrow> Some 0)"

definition demoCallbacks :: callbacks where
  "demoCallbacks =
     \<lparr>findWidget = hitTopLevel,
      absolutePosition = (\<lambda>ws w. w_pos (ws w)),
      on_focusEvent = widgetFocusEvent,
      on_keyboardEvent = (\<lambda>w key scancode action modifiers. Returns True),
      on_keyboardCharacterEvent = (\<lambda>w codepoint. Returns (w = 2)),
      on_mouseButtonEvent = (\<lambda>w p button down modifiers. Returns False),
      on_mouseDragEvent = (\<lambda>w p rel button modifiers. Returns True),
      on_mouseMotionEvent = (\<lambda>w p rel button modifiers. Returns False),
      on_scrollEvent = (\<lambda>w p rel. Returns True),
      on_dropEvent = (\<lambda>w filenames. Throws ''cannot open dropped file''),
      mResizeCallback = Some (\<lambda>sz. Returns ()),
      osScaling = True\<rparr>"

definition throwingFocusCallbacks :: callbacks where
  \<comment> \<open>The same handlers, but the focus handler of the text box 2 throws on losing the
     focus.\<close>
  "throwingFocusCallbacks =
     demoCallbacks\<lparr>on_focusEvent :=
       (\<lambda>w b ws. if w = 2 \<and> \<not> b then (Throws ''focus handler failed'', ws)
                  else widgetFocusEvent w b ws)\<rparr>"

definition demoScreen :: screen where
  \<comment> \<open>The text box has the focus, the pointer is at (200,200), outside the modal window.\<close>
  "demoScreen =
     \<lparr>self = 0, widgets = demoWidgets, mChildren = [3, 1, 4], mFocusPath = [2, 1, 0],
      mDragActive = False, mDragWidget = None, mMousePos = (200, 200), mMouseState = 0,
      mModifiers = 0, mCursor = Arrow, mLastInteraction = 0, mSize = (800, 600),
      mFBSize = (800, 600), mPixelRatio = 1, calls = [], cerr = []\<rparr>"

definition nonModalScreen :: screen where
  \<comment> \<open>The same scene with window 1 not modal.\<close>
  "nonModalScreen = demoScreen\<lparr>widgets := demoWidgets(1 := (demoWidgets 1)\<lparr>w_modal := False\<rparr>)\<rparr>"

definition draggingScreen :: screen where
  \<comment> \<open>The same scene while window 1 is being dragged.\<close>
  "draggingScreen = nonModalScreen\<lparr>mDragActive := True, mDragWidget := Some 1\<rparr>"

definition cyclicWidgets :: "wid \<Rightarrow> widget" where
  \<comment> \<open>Two popups, 5 and 6, each the parent window of the other.\<close>
  "cyclicWidgets i =
     plainWidget\<lparr>w_parent := Some 0, w_kind := PopupKind,
                  w_parentWindow := Some (if i = 5 then 6 else 5)\<rparr>"

definition cyclicScreen :: screen where
  \<comment> \<open>A screen whose children are those two popups.\<close>
  "cyclicScreen = demoScreen\<lparr>widgets := cyclicWidgets, mChildren := [5, 6], mFocusPath := []\<rparr>"

section \<open>Modal exclusivity\<close>

lemma modalBlocks_secondFromTop:
  assumes "mFocusPath s = pre @ [m, root]"
    and "isWindow (widgets s m)" and "w_modal (widgets s m)"
    and "\<not> contains (widgets s m) (mMousePos s)"
  shows "modalBlocks s"
  using assms by (simp add: modalBlocks_def nth_append)

lemma modalBlocks_frame [simp]:
  "modalBlocks (s\<lparr>mModifiers := a\<rparr>) = modalBlocks s"
  "modalBlocks (s\<lparr>mLastInteraction := b\<rparr>) = modalBlocks s"
  by (simp_all add: modalBlocks_def)

lemma demoScreen_modal:
  "mFocusPath demoScreen = [2] @ [1, 0]"
  "isWindow (widgets demoScreen 1)"
  "w_modal (widgets demoScreen 1)"
  "\<not> contains (widgets demoScreen 1) (mMousePos demoScreen)"
  by (simp_all add: demoScreen_def demoWidgets_def plainWidget_def isWindow_def contains_def
      vsub_def)

text \<open>
  Claim C1. While a modal window is active (the second-from-top entry of the focus path is a
  window with the modal flag) and the stored pointer position lies outside its bounds, a
  button event and a scroll event both return false from their entry point, and the record
  of callbacks is as it was: no widget is called, inside the modal window or elsewhere.
\<close>

theorem modal_exclusivity:
  assumes "mFocusPath s = pre @ [m, root]"
    and "isWindow (widgets s m)" and "w_modal (widgets s m)"
    and "\<not> contains (widgets s m) (mMousePos s)"
  shows "(\<exists>s'. mouseButtonCallbackEvent cb button action modifiers ticks s
                  = Some (Returns False, s') \<and> calls s' = calls s) \<and>
         (\<exists>s'. scrollCallbackEvent cb x y ticks s = (Returns False, s') \<and> calls s' = calls s)"
proof -
  have blocked: "modalBlocks s" using assms by (rule modalBlocks_secondFromTop)
  have "mouseButtonCallbackEvent cb button action modifiers ticks s
          = Some (Returns False, s\<lparr>mModifiers := modifiers, mLastInteraction := ticks\<rparr>)"
    using blocked
    by (simp add: mouseButtonCallbackEvent_def mouseButtonBody_def catchException_def)
  moreover have "scrollCallbackEvent cb x y ticks s
          = (Returns False, s\<lparr>mLastInteraction := ticks\<rparr>)"
    using blocked by (simp add: scrollCallbackEvent_def catchException_def)
  ultimately show ?thesis by simp
qed

text \<open>
  The scene of the specification: the modal window covers [0,0]-[100,100] and the pointer
  is at (200,200).
\<close>

theorem modal_exclusivity_witness:
  "mFocusPath demoScreen = [2] @ [1, 0] \<and> isWindow (widgets demoScreen 1) \<and>
   w_modal (widgets demoScreen 1) \<and> w_pos (widgets demoScreen 1) = (0, 0) \<and>
   w_size (widgets demoScreen 1) = (100, 100) \<and> mMousePos demoScreen = (200, 200) \<and>
   (\<exists>s'. mouseButtonCallbackEvent demoCallbacks 1 SDL_MOUSEBUTTONDOWN 0 1000 demoScreen
            = Some (Returns False, s') \<and> calls s' = []) \<and>
   (\<exists>s'. scrollCallbackEvent demoCallbacks 0 1 1000 demoScreen = (Returns False, s')
            \<and> calls s' = [])"
  using modal_exclusivity [OF demoScreen_modal,
      of demoCallbacks 1 SDL_MOUSEBUTTONDOWN 0 1000 0 1]
  by (simp add: demoScreen_def demoWidgets_def plainWidget_def isWindow_def)

text \<open>
  Claim C10. A button event swallowed by the modal check has stored the event's modifiers
  and the new time of the last interaction, and nothing else: the pressed-button mask, the
  drag state, the cursor, the focus path and every other member are those of the state
  before.
\<close>

theorem mouseButton_swallowed_frame:
  assumes "mFocusPath s = pre @ [m, root]"
    and "isWindow (widgets s m)" and "w_modal (widgets s m)"
    and "\<not> contains (widgets s m) (mMousePos s)"
  shows "mouseButtonCallbackEvent cb button action modifiers ticks s =
           Some (Returns False, s\<lparr>mModifiers := modifiers, mLastInteraction := ticks\<rparr>)"
proof -
  have "modalBlocks s" using assms by (rule modalBlocks_secondFromTop)
  then show ?thesis
    by (simp add: mouseButtonCallbackEvent_def mouseButtonBody_def catchException_def)
qed

text \<open>
  The swallowed press in the scene, with modifier mask 64 at tick 1000.
\<close>

theorem mouseButton_swallowed_frame_witness:
  "mFocusPath demoScreen = [2] @ [1, 0] \<and> isWindow (widgets demoScreen 1) \<and>
   w_modal (widgets demoScreen 1) \<and> \<not> contains (widgets demoScreen 1) (mMousePos demoScreen) \<and>
   mouseButtonCallbackEvent demoCallbacks 1 SDL_MOUSEBUTTONDOWN 64 1000 demoScreen =
     Some (Returns False, demoScreen\<lparr>mModifiers := 64, mLastInteraction := 1000\<rparr>)"
  using mouseButton_swallowed_frame [OF demoScreen_modal,
      of demoCallbacks 1 SDL_MOUSEBUTTONDOWN 64 1000] demoScreen_modal
  by simp

section \<open>Resize\<close>

text \<open>
  Claim C7, as the code has it. The event is ignored exactly when the stored framebuffer size
  is (0,0) or the logical size just queried (divided by the pixel ratio where the platform
  scales) is (0,0), zero in both axes: then the state is unchanged, no callback runs and the
  result is false. In every other case the queried sizes are stored, also a size that is zero
  in one axis only.
\<close>

theorem resize_ignored:
  assumes "osScaling cb \<longrightarrow> mPixelRatio s \<noteq> 0"
  shows "(mFBSize s = (0, 0) \<or> (if osScaling cb then vdiv size0 (mPixelRatio s) else size0) = (0, 0)
            \<longrightarrow> resizeCallbackEvent cb fbSize size0 ticks s = (Returns False, s)) \<and>
         (\<not> (mFBSize s = (0, 0) \<or> (if osScaling cb then vdiv size0 (mPixelRatio s) else size0) = (0, 0))
            \<longrightarrow> mFBSize (snd (resizeCallbackEvent cb fbSize size0 ticks s)) = fbSize \<and>
                mSize (snd (resizeCallbackEvent cb fbSize size0 ticks s))
                  = (if osScaling cb then vdiv size0 (mPixelRatio s) else size0))"
  using assms
  by (auto simp add: resizeCallbackEvent_def resizeEvent_def catchException_def bindOutcome_def
      invoke_def Let_def split: option.splits outcome.splits)

text \<open>
  Claim C7 as stated fails: after a valid size of (800,600), a queried size of (0,600), zero
  in one axis, is stored, the resize callback runs and the result is true.
\<close>

theorem resize_one_axis_counterexample:
  "mSize demoScreen = (800, 600) \<and> mFBSize demoScreen = (800, 600) \<and>
   fst (resizeCallbackEvent demoCallbacks (0, 600) (0, 600) 1000 demoScreen) = Returns True \<and>
   calls (snd (resizeCallbackEvent demoCallbacks (0, 600) (0, 600) 1000 demoScreen))
     = [ResizeCallback (0, 600)] \<and>
   mSize (snd (resizeCallbackEvent demoCallbacks (0, 600) (0, 600) 1000 demoScreen)) = (0, 600) \<and>
   mFBSize (snd (resizeCallbackEvent demoCallbacks (0, 600) (0, 600) 1000 demoScreen)) = (0, 600)"
  by (simp add: resizeCallbackEvent_def resizeEvent_def catchException_def bindOutcome_def
      invoke_def demoScreen_def demoCallbacks_def vdiv_def cdiv_def Let_def)

text \<open>
  A queried size of (0,0) after (800,600) leaves the state as it was; a queried size of
  (640,480) is stored.
\<close>

theorem resize_ignored_witness:
  "osScaling demoCallbacks \<and> mPixelRatio demoScreen = 1 \<and>
   vdiv (0, 0) (mPixelRatio demoScreen) = (0, 0) \<and>
   resizeCallbackEvent demoCallbacks (0, 0) (0, 0) 1000 demoScreen = (Returns False, demoScreen) \<and>
   mFBSize (snd (resizeCallbackEvent demoCallbacks (1280, 960) (640, 480) 1000 demoScreen))
     = (1280, 960) \<and>
   mSize (snd (resizeCallbackEvent demoCallbacks (1280, 960) (640, 480) 1000 demoScreen))
     = (640, 480)"
proof -
  have r: "osScaling demoCallbacks \<longrightarrow> mPixelRatio demoScreen \<noteq> 0"
    by (simp add: demoScreen_def)
  have o: "osScaling demoCallbacks" by (simp add: demoCallbacks_def)
  have z: "vdiv (0, 0) (mPixelRatio demoScreen) = (0, 0)"
    by (simp add: vdiv_def cdiv_def)
  have n: "vdiv (640, 480) (mPixelRatio demoScreen) = (640, 480)"
    "mFBSize demoScreen = (800, 600)"
    by (simp_all add: vdiv_def cdiv_def demoScreen_def)
  show ?thesis
    using resize_ignored [OF r, of "(0, 0)" "(0, 0)" 1000]
      resize_ignored [OF r, of "(640, 480)" "(1280, 960)" 1000] o z n
    by (simp add: demoScreen_def)
qed

section \<open>Exceptions\<close>

lemma catchException_no_throw: "fst (catchException rs) \<noteq> Throws e"
  by (simp add: catchException_def split: outcome.splits)

lemma guarded_entry_points_no_throw:
  "fst (cursorPosCallbackEvent cb x y ticks s) \<noteq> Throws e"
  "fst (keyCallbackEvent cb key scancode action mods ticks s) \<noteq> Throws e"
  "fst (charCallbackEvent cb codepoint ticks s) \<noteq> Throws e"
  "fst (scrollCallbackEvent cb x y ticks s) \<noteq> Throws e"
  "fst (resizeCallbackEvent cb fbSize size0 ticks s) \<noteq> Throws e"
  "mouseButtonCallbackEvent cb button action modifiers ticks s = Some rs \<Longrightarrow> fst rs \<noteq> Throws e"
  by (auto simp add: cursorPosCallbackEvent_def keyCallbackEvent_def charCallbackEvent_def
      scrollCallbackEvent_def resizeCallbackEvent_def mouseButtonCallbackEvent_def Let_def
      catchException_no_throw)

text \<open>
  Claim C5 at the drop entry point: the handler throws, and the exception leaves
  \<open>dropCallbackEvent\<close> as thrown; nothing is written to the diagnostic stream and the
  result is not false. The other six entry points never let an exception out
  (\<open>guarded_entry_points_no_throw\<close>).
\<close>

theorem drop_exception_escapes:
  "dropCallbackEvent demoCallbacks 1 [''a.txt''] demoScreen
     = (Throws ''cannot open dropped file'',
        demoScreen\<lparr>calls := [DropEvent 0 [''a.txt'']]\<rparr>)"
  by (simp add: dropCallbackEvent_def invoke_def demoCallbacks_def demoScreen_def)

section \<open>Keyboard and character dispatch\<close>

lemma dispatchFocused_eq:
  "dispatchFocused h mk ws s =
     (let fs = filter (\<lambda>w. w_focused (widgets s w)) ws;
          quiet = takeWhile (\<lambda>w. h w = Returns False) fs;
          rest = dropWhile (\<lambda>w. h w = Returns False) fs
      in (case rest of [] \<Rightarrow> Returns False | w # _ \<Rightarrow> h w,
          s\<lparr>calls := calls s @ map mk (quiet @ take 1 rest)\<rparr>))"
proof (induction ws arbitrary: s)
  case Nil
  show ?case by simp
next
  case (Cons w ws)
  show ?case
  proof (cases "w_focused (widgets s w)")
    case False
    then show ?thesis using Cons.IH [of s] by simp
  next
    case True
    show ?thesis
    proof (cases "h w")
      case (Returns b)
      then show ?thesis
        using True Cons.IH [of "s\<lparr>calls := calls s @ [mk w]\<rparr>"]
        by (cases b) (simp_all add: bindOutcome_def invoke_def Let_def)
    next
      case (Throws e)
      then show ?thesis using True by (simp add: bindOutcome_def invoke_def)
    next
      case Crash
      then show ?thesis using True by (simp add: bindOutcome_def invoke_def)
    qed
  qed
qed

lemma tl_rev_butlast: "tl (rev xs) = rev (butlast xs)"
  by (cases xs rule: rev_cases) simp_all

text \<open>
  Claim C3, as the code has it. Key and character events visit the focus path from its last
  entry towards its first, that is from the root's side to the leaf, with the root entry (the
  last one) skipped. Of the entries visited, those that report themselves focused are called
  in that order as long as the callback returns false; the first callback that does not
  return false ends the walk and its outcome is the result; the result is false when every
  callback returned false. No widget is called after the one that ended the walk, and no
  unfocused widget is called.
\<close>

theorem keyboard_dispatch_root_to_leaf:
  "keyboardEvent cb key scancode action modifiers s =
     (let fs = filter (\<lambda>w. w_focused (widgets s w)) (rev (butlast (mFocusPath s)));
          h = (\<lambda>w. on_keyboardEvent cb w key scancode action modifiers);
          quiet = takeWhile (\<lambda>w. h w = Returns False) fs;
          rest = dropWhile (\<lambda>w. h w = Returns False) fs
      in (case rest of [] \<Rightarrow> Returns False | w # _ \<Rightarrow> h w,
          s\<lparr>calls := calls s @ map (\<lambda>w. KeyboardEvent w key scancode action modifiers)
                                  (quiet @ take 1 rest)\<rparr>)) \<and>
   keyboardCharacterEvent cb codepoint s =
     (let fs = filter (\<lambda>w. w_focused (widgets s w)) (rev (butlast (mFocusPath s)));
          h = (\<lambda>w. on_keyboardCharacterEvent cb w codepoint);
          quiet = takeWhile (\<lambda>w. h w = Returns False) fs;
          rest = dropWhile (\<lambda>w. h w = Returns False) fs
      in (case rest of [] \<Rightarrow> Returns False | w # _ \<Rightarrow> h w,
          s\<lparr>calls := calls s @ map (\<lambda>w. KeyboardCharacterEvent w codepoint)
                                  (quiet @ take 1 rest)\<rparr>))"
proof -
  have empty: "mFocusPath s = [] \<Longrightarrow> s\<lparr>calls := calls s\<rparr> = s" by simp
  show ?thesis
    by (cases "mFocusPath s = []")
      (simp_all add: keyboardEvent_def keyboardCharacterEvent_def dispatchFocused_eq
        tl_rev_butlast Let_def)
qed

text \<open>
  In the scene the window (1) and the text box (2) are focused. Every key handler returns
  true, so the key goes to the window only; the character handler of the window returns
  false, so the character goes to the window and then to the text box.
\<close>

theorem keyboard_dispatch_root_to_leaf_witness:
  "keyboardEvent demoCallbacks 13 0 1 0 demoScreen
     = (Returns True, demoScreen\<lparr>calls := [KeyboardEvent 1 13 0 1 0]\<rparr>) \<and>
   keyboardCharacterEvent demoCallbacks 65 demoScreen
     = (Returns True,
        demoScreen\<lparr>calls := [KeyboardCharacterEvent 1 65, KeyboardCharacterEvent 2 65]\<rparr>)"
  using keyboard_dispatch_root_to_leaf [of demoCallbacks 13 0 1 0 demoScreen 65]
  by (simp add: demoScreen_def demoCallbacks_def demoWidgets_def plainWidget_def)

text \<open>
  Claim C3 as stated fails: the leaf of the focus path, the text box 2, is focused and its
  key handler returns true, yet the key is delivered to window 1 and never to the text box.
  A walk from leaf to root would have called the text box and nothing else.
\<close>

theorem keyboard_leaf_to_root_counterexample:
  "mFocusPath demoScreen = [2, 1, 0] \<and>
   w_focused (widgets demoScreen 2) \<and>
   on_keyboardEvent demoCallbacks 2 13 0 1 0 = Returns True \<and>
   calls (snd (keyboardEvent demoCallbacks 13 0 1 0 demoScreen)) = [KeyboardEvent 1 13 0 1 0] \<and>
   calls (snd (keyboardEvent_leafToRoot demoCallbacks 13 0 1 0 demoScreen))
     = [KeyboardEvent 2 13 0 1 0]"
  by (simp add: keyboardEvent_def keyboardEvent_leafToRoot_def bindOutcome_def invoke_def
      demoScreen_def demoCallbacks_def demoWidgets_def plainWidget_def)

section \<open>Popups in front of their owner, and termination\<close>

lemma fold_base_last:
  "k < n \<Longrightarrow> cs ! k = w \<Longrightarrow> (\<And>i. k < i \<Longrightarrow> i < n \<Longrightarrow> cs ! i \<noteq> w) \<Longrightarrow>
   fold (\<lambda>index baseIndex. if cs ! index = w then index else baseIndex) [0..<n] b = k"
proof (induction n)
  case 0
  then show ?case by simp
next
  case (Suc n)
  show ?case
  proof (cases "k = n")
    case True
    then show ?thesis using Suc.prems(2) by simp
  next
    case False
    then have "k < n" using Suc.prems(1) by simp
    moreover have "cs ! n \<noteq> w" using Suc.prems(3) [of n] \<open>k < n\<close> by simp
    ultimately show ?thesis using Suc.IH Suc.prems by simp
  qed
qed

lemma findBaseIndex_split:
  assumes "w \<notin> set ys"
  shows "findBaseIndex (xs @ w # ys) w = length xs"
  unfolding findBaseIndex_def
proof (rule fold_base_last)
  show "length xs < length (xs @ w # ys)" by simp
  show "(xs @ w # ys) ! length xs = w" by simp
  fix i assume "length xs < i" "i < length (xs @ w # ys)"
  then have "(xs @ w # ys) ! i = ys ! (i - length xs - 1)" "i - length xs - 1 < length ys"
    by (auto simp add: nth_append nth_Cons')
  then show "(xs @ w # ys) ! i \<noteq> w" using assms by (metis nth_mem)
qed

lemma findBaseIndex_is_last:
  assumes "j < length cs" and "cs ! j = w"
  shows "j \<le> findBaseIndex cs w \<and> findBaseIndex cs w < length cs \<and> cs ! findBaseIndex cs w = w"
proof -
  have "w \<in> set cs" using assms by (metis nth_mem)
  then obtain xs ys where cs: "cs = xs @ w # ys" and ys: "w \<notin> set ys"
    by (meson split_list_last)
  have b: "findBaseIndex cs w = length xs" using findBaseIndex_split [OF ys] cs by simp
  have "j \<le> length xs"
  proof (rule ccontr)
    assume "\<not> j \<le> length xs"
    then have "cs ! j = ys ! (j - length xs - 1)" "j - length xs - 1 < length ys"
      using assms(1) cs by (auto simp add: nth_append nth_Cons')
    then show False using ys assms(2) by (metis nth_mem)
  qed
  then show ?thesis using b cs by simp
qed

lemma findPopupBehind_None:
  assumes "findPopupBehind ws w b cs = None" and "i < b" and "i < length cs"
  shows "\<not> (isPopup (ws (cs ! i)) \<and> w_parentWindow (ws (cs ! i)) = Some w)"
  using assms by (auto simp add: findPopupBehind_def find_None_iff)

lemma findPopupBehind_Some:
  assumes "findPopupBehind ws w b cs = Some pw"
  shows "\<exists>i. i < b \<and> i < length cs \<and> cs ! i = pw \<and> isPopup (ws pw)
             \<and> w_parentWindow (ws pw) = Some w"
  using assms by (auto simp add: findPopupBehind_def find_Some_iff)

lemma popupLoop_sorted:
  assumes "popupLoop ws w cs = Some cs'"
  shows "findPopupBehind ws w (findBaseIndex cs' w) cs' = None"
proof (rule popupLoop.raw_induct
    [where P = "\<lambda>ws w cs cs'. findPopupBehind ws w (findBaseIndex cs' w) cs' = None",
      OF _ assms])
  fix f and ws :: "wid \<Rightarrow> widget" and w :: wid and cs cs' :: "wid list"
  assume IH: "\<And>ws w cs cs'. f ws w cs = Some cs'
                \<Longrightarrow> findPopupBehind ws w (findBaseIndex cs' w) cs' = None"
    and eq: "(case findPopupBehind ws w (findBaseIndex cs w) cs of
                None \<Rightarrow> Some cs
              | Some pw \<Rightarrow> Option.bind (f ws pw (removeAll pw cs @ [pw])) (f ws w)) = Some cs'"
  show "findPopupBehind ws w (findBaseIndex cs' w) cs' = None"
  proof (cases "findPopupBehind ws w (findBaseIndex cs w) cs")
    case None
    then show ?thesis using eq by simp
  next
    case (Some pw)
    then obtain cs1 where "f ws w cs1 = Some cs'"
      using eq by (auto simp add: bind_eq_Some_conv)
    then show ?thesis by (rule IH)
  qed
qed

lemma filter_moved_twice:
  assumes "cs1 = filter (\<lambda>x. x \<notin> set m1) cs @ m1" and "cs2 = filter (\<lambda>x. x \<notin> set m2) cs1 @ m2"
  shows "cs2 = filter (\<lambda>x. x \<notin> set (filter (\<lambda>x. x \<notin> set m2) m1 @ m2)) cs
                 @ (filter (\<lambda>x. x \<notin> set m2) m1 @ m2)"
proof -
  have "filter (\<lambda>x. x \<notin> set m2) (filter (\<lambda>x. x \<notin> set m1) cs)
          = filter (\<lambda>x. x \<notin> set (filter (\<lambda>x. x \<notin> set m2) m1 @ m2)) cs"
    by (auto intro: filter_cong)
  then show ?thesis using assms by simp
qed

lemma filter_moved_pushed:
  assumes "cs1 = filter (\<lambda>x. x \<notin> set m) (removeAll pw cs @ [pw]) @ m"
  shows "\<exists>m'. cs1 = filter (\<lambda>x. x \<notin> set m') cs @ m' \<and> set m' = insert pw (set m)"
proof (cases "pw \<in> set m")
  case True
  have "filter (\<lambda>x. x \<notin> set m) (removeAll pw cs) = filter (\<lambda>x. x \<notin> set m) cs"
    using True by (auto simp add: removeAll_filter_not_eq intro: filter_cong)
  then have "cs1 = filter (\<lambda>x. x \<notin> set m) cs @ m" using assms True by simp
  then show ?thesis using True by (intro exI [of _ m]) auto
next
  case False
  have "filter (\<lambda>x. x \<notin> set m) (removeAll pw cs) = filter (\<lambda>x. x \<notin> set (pw # m)) cs"
    by (auto simp add: removeAll_filter_not_eq intro: filter_cong)
  then have "cs1 = filter (\<lambda>x. x \<notin> set (pw # m)) cs @ (pw # m)" using assms False by simp
  then show ?thesis by (intro exI [of _ "pw # m"]) auto
qed

lemma set_moved:
  assumes "cs1 = filter (\<lambda>x. x \<notin> set m) cs @ m" and "set m \<subseteq> set cs"
  shows "set cs1 = set cs"
  using assms by auto

lemma popupLoop_moves_descendants:
  assumes "popupLoop ws w cs = Some cs'"
  shows "\<exists>m. cs' = filter (\<lambda>x. x \<notin> set m) cs @ m \<and> set m \<subseteq> set cs \<and>
             (\<forall>x \<in> set m. (x, w) \<in> (owns ws (set cs))\<^sup>+)"
proof (rule popupLoop.raw_induct
    [where P = "\<lambda>ws w cs cs'. \<exists>m. cs' = filter (\<lambda>x. x \<notin> set m) cs @ m \<and> set m \<subseteq> set cs \<and>
             (\<forall>x \<in> set m. (x, w) \<in> (owns ws (set cs))\<^sup>+)", OF _ assms])
  fix f and ws :: "wid \<Rightarrow> widget" and w :: wid and cs cs' :: "wid list"
  assume IH: "\<And>ws w cs cs'. f ws w cs = Some cs'
                \<Longrightarrow> \<exists>m. cs' = filter (\<lambda>x. x \<notin> set m) cs @ m \<and> set m \<subseteq> set cs \<and>
                        (\<forall>x \<in> set m. (x, w) \<in> (owns ws (set cs))\<^sup>+)"
    and eq: "(case findPopupBehind ws w (findBaseIndex cs w) cs of
                None \<Rightarrow> Some cs
              | Some pw \<Rightarrow> Option.bind (f ws pw (removeAll pw cs @ [pw])) (f ws w)) = Some cs'"
  show "\<exists>m. cs' = filter (\<lambda>x. x \<notin> set m) cs @ m \<and> set m \<subseteq> set cs \<and>
             (\<forall>x \<in> set m. (x, w) \<in> (owns ws (set cs))\<^sup>+)"
  proof (cases "findPopupBehind ws w (findBaseIndex cs w) cs")
    case None
    then have "cs' = cs" using eq by simp
    then show ?thesis by (intro exI [of _ "[]"]) simp
  next
    case (Some pw)
    then obtain i where i: "i < length cs" "cs ! i = pw" "isPopup (ws pw)"
      "w_parentWindow (ws pw) = Some w"
      using findPopupBehind_Some by blast
    then have mem: "pw \<in> set cs" by (metis nth_mem)
    then have own: "(pw, w) \<in> owns ws (set cs)" using i by (simp add: owns_def)
    have set0: "set (removeAll pw cs @ [pw]) = set cs" using mem by auto
    obtain cs1 where c1: "f ws pw (removeAll pw cs @ [pw]) = Some cs1" and c2: "f ws w cs1 = Some cs'"
      using eq Some by (auto simp add: bind_eq_Some_conv)
    obtain m0 where m0: "cs1 = filter (\<lambda>x. x \<notin> set m0) (removeAll pw cs @ [pw]) @ m0"
      "set m0 \<subseteq> set cs" "\<forall>x \<in> set m0. (x, pw) \<in> (owns ws (set cs))\<^sup>+"
      using IH [OF c1] set0 by auto
    obtain m1 where m1: "cs1 = filter (\<lambda>x. x \<notin> set m1) cs @ m1" "set m1 = insert pw (set m0)"
      using filter_moved_pushed [OF m0(1)] by blast
    have sub1: "set m1 \<subseteq> set cs" using m1(2) m0(2) mem by simp
    have set1: "set cs1 = set cs" using m1(1) sub1 by (rule set_moved)
    have desc1: "\<forall>x \<in> set m1. (x, w) \<in> (owns ws (set cs))\<^sup>+"
    proof
      fix x assume "x \<in> set m1"
      then consider "x = pw" | "x \<in> set m0" using m1(2) by auto
      then show "(x, w) \<in> (owns ws (set cs))\<^sup>+"
      proof cases
        case 1
        then show ?thesis using own by (simp add: r_into_trancl)
      next
        case 2
        then have "(x, pw) \<in> (owns ws (set cs))\<^sup>+" using m0(3) by simp
        then show ?thesis using own by (rule trancl_into_trancl)
      qed
    qed
    obtain m2 where m2: "cs' = filter (\<lambda>x. x \<notin> set m2) cs1 @ m2"
      "set m2 \<subseteq> set cs" "\<forall>x \<in> set m2. (x, w) \<in> (owns ws (set cs))\<^sup>+"
      using IH [OF c2] set1 by auto
    let ?m = "filter (\<lambda>x. x \<notin> set m2) m1 @ m2"
    have "cs' = filter (\<lambda>x. x \<notin> set ?m) cs @ ?m"
      using m1(1) m2(1) by (rule filter_moved_twice)
    moreover have "set ?m \<subseteq> set cs" using sub1 m2(2) by auto
    moreover have "\<forall>x \<in> set ?m. (x, w) \<in> (owns ws (set cs))\<^sup>+" using desc1 m2(3) by auto
    ultimately show ?thesis by blast
  qed
qed

lemma popupLoop_set:
  assumes "popupLoop ws w cs = Some cs'"
  shows "set cs' = set cs"
proof -
  obtain m where "cs' = filter (\<lambda>x. x \<notin> set m) cs @ m" "set m \<subseteq> set cs"
    using popupLoop_moves_descendants [OF assms] by blast
  then show ?thesis by (rule set_moved)
qed

text \<open>
  Claim C2. Whatever the order of the children before the call, and however many popups
  share the owner: when \<open>moveWindowToFront\<close> returns, W is among the children and every
  child that is a popup with parent window W (a widget other than W itself) stands at a
  greater index than W.
\<close>

theorem popups_in_front_of_owner:
  assumes "Screen_moveWindowToFront W s = Some s'"
  shows "W \<in> set (mChildren s') \<and>
         (\<forall>i j. i < length (mChildren s') \<and> j < length (mChildren s') \<and>
                mChildren s' ! j = W \<and> mChildren s' ! i \<noteq> W \<and>
                isPopup (widgets s' (mChildren s' ! i)) \<and>
                w_parentWindow (widgets s' (mChildren s' ! i)) = Some W
                \<longrightarrow> j < i)"
proof -
  let ?cs = "mChildren s'"
  from assms have loop: "popupLoop (widgets s) W (removeAll W (mChildren s) @ [W]) = Some ?cs"
    and ws: "widgets s' = widgets s"
    by (auto simp add: Screen_moveWindowToFront_def moveWindowToFront_def)
  have mem: "W \<in> set ?cs" using popupLoop_set [OF loop] by simp
  have none: "findPopupBehind (widgets s) W (findBaseIndex ?cs W) ?cs = None"
    using loop by (rule popupLoop_sorted)
  have "j < i" if ij: "i < length ?cs" "j < length ?cs" "?cs ! j = W" "?cs ! i \<noteq> W"
    "isPopup (widgets s' (?cs ! i))" "w_parentWindow (widgets s' (?cs ! i)) = Some W" for i j
  proof -
    have last: "j \<le> findBaseIndex ?cs W" "?cs ! findBaseIndex ?cs W = W"
      using findBaseIndex_is_last [OF ij(2,3)] by simp_all
    have "\<not> i < findBaseIndex ?cs W"
      using findPopupBehind_None [OF none _ ij(1)] ij(5,6) ws by auto
    moreover have "i \<noteq> findBaseIndex ?cs W" using last(2) ij(4) by auto
    ultimately show ?thesis using last(1) by simp
  qed
  then show ?thesis using mem by blast
qed

text \<open>
  Window 1 with its popups 3 and 4, one before and one behind it: the call returns the order
  1, 3, 4.
\<close>

theorem popups_in_front_of_owner_witness:
  "\<exists>s'. Screen_moveWindowToFront 1 demoScreen = Some s' \<and> mChildren demoScreen = [3, 1, 4] \<and>
        mChildren s' = [1, 3, 4] \<and> 1 \<in> set (mChildren s') \<and>
        isPopup (widgets s' 3) \<and> w_parentWindow (widgets s' 3) = Some 1 \<and> (0::nat) < 1 \<and>
        isPopup (widgets s' 4) \<and> w_parentWindow (widgets s' 4) = Some 1 \<and> (0::nat) < 2"
proof -
  have "map_option mChildren (Screen_moveWindowToFront 1 demoScreen) = Some [1, 3, 4]"
    by code_simp
  then obtain s' where s': "Screen_moveWindowToFront 1 demoScreen = Some s'"
    "mChildren s' = [1, 3, 4]"
    by auto
  have ws: "widgets s' = demoWidgets"
    using s'(1) by (auto simp add: Screen_moveWindowToFront_def demoScreen_def)
  show ?thesis
    using popups_in_front_of_owner [OF s'(1)] s' ws
    by (simp add: demoWidgets_def plainWidget_def isPopup_def demoScreen_def)
qed

lemma before_owner_filter:
  assumes "w \<in> set cs" and "w \<notin> set m"
  shows "take (findBaseIndex (filter (\<lambda>x. x \<notin> set m) cs @ m) w) (filter (\<lambda>x. x \<notin> set m) cs @ m)
           = filter (\<lambda>x. x \<notin> set m) (take (findBaseIndex cs w) cs)"
proof -
  obtain xs ys where cs: "cs = xs @ w # ys" and ys: "w \<notin> set ys"
    using assms(1) by (meson split_list_last)
  let ?f = "filter (\<lambda>x. x \<notin> set m)"
  have b: "findBaseIndex cs w = length xs" using findBaseIndex_split [OF ys] cs by simp
  have eq: "?f cs @ m = ?f xs @ w # (?f ys @ m)" using cs assms(2) by simp
  have "w \<notin> set (?f ys @ m)" using ys assms(2) by simp
  then have "findBaseIndex (?f xs @ w # (?f ys @ m)) w = length (?f xs)"
    by (rule findBaseIndex_split)
  then have "take (findBaseIndex (?f cs @ m) w) (?f cs @ m) = ?f xs"
    unfolding eq by simp
  moreover have "take (findBaseIndex cs w) cs = xs"
    unfolding b unfolding cs by simp
  ultimately show ?thesis by simp
qed

lemma length_filter_drop:
  assumes "x \<in> set xs" and "P x" and "\<not> Q x"
  shows "length (filter P (filter Q xs)) < length (filter P xs)"
proof -
  have "filter P (filter Q xs) = filter Q (filter P xs)"
    by (simp add: conj_commute)
  moreover have "x \<in> set (filter P xs)" using assms by simp
  then have "length (filter Q (filter P xs)) < length (filter P xs)"
    using assms(3) by (rule length_filter_less)
  ultimately show ?thesis by (simp only:)
qed

lemma finite_owns: "finite S \<Longrightarrow> finite (owns ws S)"
proof -
  assume "finite S"
  then have "finite ((\<lambda>p. (p, the (w_parentWindow (ws p)))) ` S)" by simp
  moreover have "owns ws S \<subseteq> (\<lambda>p. (p, the (w_parentWindow (ws p)))) ` S"
    by (auto simp add: owns_def image_iff)
  ultimately show ?thesis by (rule rev_finite_subset)
qed

lemma popupLoop_terminates:
  assumes acyc: "acyclic (owns ws S)" and fin: "finite S"
  shows "set cs = S \<Longrightarrow> w \<in> S \<Longrightarrow> \<exists>cs'. popupLoop ws w cs = Some cs'"
proof -
  have wf: "wf (owns ws S)" using finite_owns [OF fin] acyc by (rule finite_acyclic_wf)
  let ?P = "\<lambda>w x. isPopup (ws x) \<and> w_parentWindow (ws x) = Some w"
  show "set cs = S \<Longrightarrow> w \<in> S \<Longrightarrow> \<exists>cs'. popupLoop ws w cs = Some cs'"
  proof (induction w arbitrary: cs rule: wf_induct_rule [OF wf])
    case (1 w)
    note outer = "1.IH"
    show ?case using "1.prems"
    proof (induction "length (filter (?P w) (take (findBaseIndex cs w) cs))" arbitrary: cs
        rule: less_induct)
      case less
      show ?case
      proof (cases "findPopupBehind ws w (findBaseIndex cs w) cs")
        case None
        then show ?thesis by (subst popupLoop.simps) simp
      next
        case (Some pw)
        then obtain i where i: "i < findBaseIndex cs w" "i < length cs" "cs ! i = pw"
          "isPopup (ws pw)" "w_parentWindow (ws pw) = Some w"
          using findPopupBehind_Some by blast
        have mem: "pw \<in> set cs" using i(2,3) by (metis nth_mem)
        then have pwS: "pw \<in> S" using less.prems by simp
        have own: "(pw, w) \<in> owns ws S" using i pwS by (simp add: owns_def)
        have set0: "set (removeAll pw cs @ [pw]) = S" using mem less.prems by auto
        obtain cs1 where c1: "popupLoop ws pw (removeAll pw cs @ [pw]) = Some cs1"
          using outer [OF own set0 pwS] by blast
        obtain m0 where m0: "cs1 = filter (\<lambda>x. x \<notin> set m0) (removeAll pw cs @ [pw]) @ m0"
          "set m0 \<subseteq> S" "\<forall>x \<in> set m0. (x, pw) \<in> (owns ws S)\<^sup>+"
          using popupLoop_moves_descendants [OF c1] set0 by auto
        obtain m1 where m1: "cs1 = filter (\<lambda>x. x \<notin> set m1) cs @ m1" "set m1 = insert pw (set m0)"
          using filter_moved_pushed [OF m0(1)] by blast
        have set1: "set cs1 = S"
          using set_moved [OF m1(1)] m1(2) m0(2) mem less.prems by simp
        have "w \<noteq> pw" using own acyc by (auto simp add: acyclic_def)
        moreover have "w \<notin> set m0"
        proof
          assume "w \<in> set m0"
          then have "(w, pw) \<in> (owns ws S)\<^sup>+" using m0(3) by simp
          then have "(w, w) \<in> (owns ws S)\<^sup>+" using own by (rule trancl_into_trancl)
          then show False using acyc by (simp add: acyclic_def)
        qed
        ultimately have wm1: "w \<notin> set m1" using m1(2) by simp
        have wcs: "w \<in> set cs" using less.prems by simp
        have before: "take (findBaseIndex cs1 w) cs1
                        = filter (\<lambda>x. x \<notin> set m1) (take (findBaseIndex cs w) cs)"
          unfolding m1(1) using wcs wm1 by (rule before_owner_filter)
        have "pw \<in> set (take (findBaseIndex cs w) cs)"
          using i(1,2,3) by (metis length_take min_less_iff_conj nth_mem nth_take)
        then have "length (filter (?P w) (take (findBaseIndex cs1 w) cs1))
                     < length (filter (?P w) (take (findBaseIndex cs w) cs))"
          unfolding before using i(4,5) m1(2) by (intro length_filter_drop [of pw]) simp_all
        then obtain cs' where "popupLoop ws w cs1 = Some cs'"
          using less.hyps [OF _ set1 less.prems(2)] by blast
        then have "popupLoop ws w cs = Some cs'"
          using Some c1 by (subst popupLoop.simps) simp
        then show ?thesis by blast
      qed
    qed
  qed
qed

text \<open>
  Claim C9, as the code has it. When the ownership among the children (and W) has no cycle,
  \<open>moveWindowToFront\<close> returns; the children are the same widgets, and the loop has ended
  because no popup of W stands before W any more. The code has no bound on its iterations
  and no check for revisits, so nothing is promised for a cyclic ownership.
\<close>

theorem moveWindowToFront_terminates:
  assumes "acyclic (owns (widgets s) (insert W (set (mChildren s))))"
  shows "\<exists>s'. Screen_moveWindowToFront W s = Some s' \<and>
              set (mChildren s') = insert W (set (mChildren s)) \<and>
              findPopupBehind (widgets s) W (findBaseIndex (mChildren s') W) (mChildren s') = None"
proof -
  let ?S = "insert W (set (mChildren s))"
  have "set (removeAll W (mChildren s) @ [W]) = ?S" by auto
  then obtain cs' where loop: "popupLoop (widgets s) W (removeAll W (mChildren s) @ [W]) = Some cs'"
    using popupLoop_terminates [OF assms, of "removeAll W (mChildren s) @ [W]" W] by auto
  have "set cs' = ?S" using popupLoop_set [OF loop] by auto
  moreover have "findPopupBehind (widgets s) W (findBaseIndex cs' W) cs' = None"
    using loop by (rule popupLoop_sorted)
  ultimately show ?thesis
    using loop by (simp add: Screen_moveWindowToFront_def moveWindowToFront_def)
qed

text \<open>
  The ownership of the scene (popups 3 and 4 of window 1) has no cycle, and the call
  returns.
\<close>

theorem moveWindowToFront_terminates_witness:
  "acyclic (owns (widgets demoScreen) (insert 1 (set (mChildren demoScreen)))) \<and>
   (\<exists>s'. Screen_moveWindowToFront 1 demoScreen = Some s' \<and> mChildren s' = [1, 3, 4])"
proof -
  have acyc: "acyclic (owns (widgets demoScreen) (insert 1 (set (mChildren demoScreen))))"
    by (rule acyclicI_order [where f = "\<lambda>i. if i = 1 then 0 else (1::nat)"])
      (auto simp add: owns_def demoScreen_def demoWidgets_def plainWidget_def isPopup_def
        split: if_splits)
  have ch: "map_option mChildren (Screen_moveWindowToFront 1 demoScreen) = Some [1, 3, 4]"
    by code_simp
  show ?thesis
    using moveWindowToFront_terminates [OF acyc] acyc ch by auto
qed

lemma cyclic_findPopupBehind:
  "findPopupBehind cyclicWidgets 5 (findBaseIndex [6, 5] 5) [6, 5] = Some 6"
  "findPopupBehind cyclicWidgets 6 (findBaseIndex [5, 6] 6) [5, 6] = Some 5"
  by (simp_all add: findPopupBehind_def findBaseIndex_def cyclicWidgets_def plainWidget_def
      isPopup_def upt_rec)

lemma cyclic_popupLoop_never_returns:
  assumes "popupLoop ws w cs = Some cs'"
  shows "\<not> (ws = cyclicWidgets \<and> (w = 5 \<and> cs = [6, 5] \<or> w = 6 \<and> cs = [5, 6]))"
proof (rule popupLoop.raw_induct
    [where P = "\<lambda>ws w cs cs'. \<not> (ws = cyclicWidgets \<and> (w = 5 \<and> cs = [6, 5] \<or> w = 6 \<and> cs = [5, 6]))",
      OF _ assms])
  fix f and ws :: "wid \<Rightarrow> widget" and w :: wid and cs cs' :: "wid list"
  assume IH: "\<And>ws w cs cs'. f ws w cs = Some cs'
                \<Longrightarrow> \<not> (ws = cyclicWidgets \<and> (w = 5 \<and> cs = [6, 5] \<or> w = 6 \<and> cs = [5, 6]))"
    and eq: "(case findPopupBehind ws w (findBaseIndex cs w) cs of
                None \<Rightarrow> Some cs
              | Some pw \<Rightarrow> Option.bind (f ws pw (removeAll pw cs @ [pw])) (f ws w)) = Some cs'"
  show "\<not> (ws = cyclicWidgets \<and> (w = 5 \<and> cs = [6, 5] \<or> w = 6 \<and> cs = [5, 6]))"
  proof
    assume bad: "ws = cyclicWidgets \<and> (w = 5 \<and> cs = [6, 5] \<or> w = 6 \<and> cs = [5, 6])"
    then consider "ws = cyclicWidgets" "w = 5" "cs = [6, 5]"
      | "ws = cyclicWidgets" "w = 6" "cs = [5, 6]" by blast
    then show False
    proof cases
      case 1
      then obtain cs1 where "f cyclicWidgets 6 [5, 6] = Some cs1"
        using eq by (auto simp add: cyclic_findPopupBehind bind_eq_Some_conv)
      then show False using IH by blast
    next
      case 2
      then obtain cs1 where "f cyclicWidgets 5 [6, 5] = Some cs1"
        using eq by (auto simp add: cyclic_findPopupBehind bind_eq_Some_conv)
      then show False using IH by blast
    qed
  qed
qed

text \<open>
  Claim C9 as stated fails: with two popups that are each other's parent window, moving one
  of them to the front calls \<open>moveWindowToFront\<close> for the other, which calls it for the
  first again on the same children, without end.
\<close>

theorem moveWindowToFront_cyclic_counterexample:
  "mChildren cyclicScreen = [5, 6] \<and>
   isPopup (widgets cyclicScreen 5) \<and> w_parentWindow (widgets cyclicScreen 5) = Some 6 \<and>
   isPopup (widgets cyclicScreen 6) \<and> w_parentWindow (widgets cyclicScreen 6) = Some 5 \<and>
   Screen_moveWindowToFront 5 cyclicScreen = None"
proof -
  have "popupLoop cyclicWidgets 5 [6, 5] = None"
    using cyclic_popupLoop_never_returns [of cyclicWidgets 5 "[6, 5]"]
    by (cases "popupLoop cyclicWidgets 5 [6, 5]") auto
  then show ?thesis
    by (simp add: Screen_moveWindowToFront_def moveWindowToFront_def cyclicScreen_def
        cyclicWidgets_def plainWidget_def isPopup_def)
qed

section \<open>Button down on empty space\<close>

lemma focusEvent_frame [simp]:
  "self (snd (focusEvent cb w b s)) = self s"
  "mChildren (snd (focusEvent cb w b s)) = mChildren s"
  "mFocusPath (snd (focusEvent cb w b s)) = mFocusPath s"
  "mDragActive (snd (focusEvent cb w b s)) = mDragActive s"
  "mDragWidget (snd (focusEvent cb w b s)) = mDragWidget s"
  "mMousePos (snd (focusEvent cb w b s)) = mMousePos s"
  "mModifiers (snd (focusEvent cb w b s)) = mModifiers s"
  "cerr (snd (focusEvent cb w b s)) = cerr s"
  "calls (snd (focusEvent cb w b s)) = calls s @ [FocusEvent w b]"
  "fst (focusEvent cb w b s) = fst (on_focusEvent cb w b (widgets s))"
  "widgets (snd (focusEvent cb w b s)) = snd (on_focusEvent cb w b (widgets s))"
  by (simp_all add: focusEvent_def invoke_def)

lemma snd_bindOutcome:
  "snd (bindOutcome rs f) = (case fst rs of Returns v \<Rightarrow> snd (f v (snd rs)) | _ \<Rightarrow> snd rs)"
  by (simp add: bindOutcome_def split: outcome.splits)

lemma fst_bindOutcome:
  "fst (bindOutcome rs f) = (case fst rs of Returns v \<Rightarrow> fst (f v (snd rs)) | Throws e \<Rightarrow> Throws e
                             | Crash \<Rightarrow> Crash)"
  by (simp add: bindOutcome_def split: outcome.splits)

lemma focusLost_frame:
  "self (snd (focusLost cb p s)) = self s"
  "mChildren (snd (focusLost cb p s)) = mChildren s"
  "mFocusPath (snd (focusLost cb p s)) = mFocusPath s"
  "mDragActive (snd (focusLost cb p s)) = mDragActive s"
  "mDragWidget (snd (focusLost cb p s)) = mDragWidget s"
  "mMousePos (snd (focusLost cb p s)) = mMousePos s"
  "mModifiers (snd (focusLost cb p s)) = mModifiers s"
  by (induction p arbitrary: s; simp add: snd_bindOutcome split: outcome.splits)+

lemma focusLost_calls:
  "\<exists>lost. calls (snd (focusLost cb p s)) = calls s @ map (\<lambda>w. FocusEvent w False) lost
          \<and> set lost \<subseteq> set p"
proof (induction p arbitrary: s)
  case Nil
  show ?case by simp
next
  case (Cons w p)
  show ?case
  proof (cases "w_focused (widgets s w)")
    case False
    then show ?thesis using Cons.IH [of s] by auto
  next
    case True
    let ?s = "snd (focusEvent cb w False s)"
    show ?thesis
    proof (cases "fst (on_focusEvent cb w False (widgets s))")
      case (Returns b)
      obtain lost where
        "calls (snd (focusLost cb p ?s)) = calls ?s @ map (\<lambda>w. FocusEvent w False) lost"
        "set lost \<subseteq> set p"
        using Cons.IH [of ?s] by blast
      then have "calls (snd (focusLost cb (w # p) s))
                   = calls s @ map (\<lambda>w. FocusEvent w False) (w # lost) \<and>
                 set (w # lost) \<subseteq> set (w # p)"
        using True Returns by (auto simp add: snd_bindOutcome)
      then show ?thesis by blast
    next
      case (Throws e)
      then have "calls (snd (focusLost cb (w # p) s))
                   = calls s @ map (\<lambda>w. FocusEvent w False) [w] \<and> set [w] \<subseteq> set (w # p)"
        using True by (simp add: snd_bindOutcome)
      then show ?thesis by blast
    next
      case Crash
      then have "calls (snd (focusLost cb (w # p) s))
                   = calls s @ map (\<lambda>w. FocusEvent w False) [w] \<and> set [w] \<subseteq> set (w # p)"
        using True by (simp add: snd_bindOutcome)
      then show ?thesis by blast
    qed
  qed
qed

lemma focusLost_returns:
  assumes "\<forall>w \<in> set p. \<forall>ws. \<exists>b. fst (on_focusEvent cb w False ws) = Returns b"
  shows "fst (focusLost cb p s) = Returns ()"
  using assms
proof (induction p arbitrary: s)
  case Nil
  show ?case by simp
next
  case (Cons w p)
  obtain b where "fst (on_focusEvent cb w False (widgets s)) = Returns b"
    using Cons.prems by (meson list.set_intros(1))
  then show ?case using Cons by (simp add: fst_bindOutcome)
qed

lemma updateFocus_null:
  "updateFocus cb None s =
     Some (bindOutcome (focusLost cb (mFocusPath s) s)
             (\<lambda>_ s1. (Returns (), s1\<lparr>mFocusPath := []\<rparr>)))"
  by (simp add: updateFocus_def walkUp.simps Let_def bindOutcome_def split: outcome.splits)

lemma updateCursor_frame [simp]:
  "self (updateCursor w s) = self s"
  "widgets (updateCursor w s) = widgets s"
  "mChildren (updateCursor w s) = mChildren s"
  "mFocusPath (updateCursor w s) = mFocusPath s"
  "mDragActive (updateCursor w s) = mDragActive s"
  "mDragWidget (updateCursor w s) = mDragWidget s"
  "mMousePos (updateCursor w s) = mMousePos s"
  "mModifiers (updateCursor w s) = mModifiers s"
  "calls (updateCursor w s) = calls s"
  by (simp_all add: updateCursor_def split: option.splits)

text \<open>
  Claim C6, as the code has it. A button-down event that the modal check does not swallow and
  whose hit test returns the screen itself ends with the drag widget null and drag-active
  false, whatever the handlers do. When no focus handler of the old focus path throws on
  losing the focus, the focus path is empty as well, and the only callbacks are focus-lost
  transitions on entries of the old focus path, as \<open>updateFocus\<close> with null fires them,
  followed by the screen's own button handler. An exception of a focus handler is caught at
  the entry point before the path is cleared (\<open>button_down_focus_handler_throws\<close>).
\<close>

theorem button_down_on_empty_space:
  assumes "\<not> modalBlocks s"
    and "findWidget cb (widgets s) (mChildren s) (mMousePos s) = Some (self s)"
  shows "\<exists>r s'.
           mouseButtonCallbackEvent cb button SDL_MOUSEBUTTONDOWN modifiers ticks s = Some (r, s') \<and>
           mDragWidget s' = None \<and> \<not> mDragActive s' \<and>
           ((\<forall>w \<in> set (mFocusPath s). \<forall>ws. \<exists>b. fst (on_focusEvent cb w False ws) = Returns b)
            \<longrightarrow> mFocusPath s' = [] \<and>
                (\<exists>lost. calls s' = calls s @ map (\<lambda>w. FocusEvent w False) lost
                           @ [MouseButtonEvent (self s) (mMousePos s) button True modifiers] \<and>
                        set lost \<subseteq> set (mFocusPath s)))"
proof -
  define s5 where "s5 = (updateCursor (Some (self s))
      (s\<lparr>mModifiers := modifiers, mLastInteraction := ticks,
         mMouseState := mMouseState s OR push_bit button 1\<rparr>))
      \<lparr>mDragWidget := None, mDragActive := False\<rparr>"
  define r1 where "r1 = focusLost cb (mFocusPath s) s5"
  define r6 where "r6 = bindOutcome r1 (\<lambda>_ s1. (Returns (), s1\<lparr>mFocusPath := []\<rparr>))"
  have s5: "self s5 = self s" "mMousePos s5 = mMousePos s" "calls s5 = calls s"
    "mModifiers s5 = modifiers" "mDragWidget s5 = None" "\<not> mDragActive s5"
    "mFocusPath s5 = mFocusPath s"
    by (simp_all add: s5_def)
  have body: "mouseButtonBody cb button SDL_MOUSEBUTTONDOWN
                (s\<lparr>mModifiers := modifiers, mLastInteraction := ticks\<rparr>)
              = Some (bindOutcome r6 (\<lambda>_. mouseButtonDispatch cb button SDL_MOUSEBUTTONDOWN))"
    using assms
    by (simp add: mouseButtonBody_def Let_def SDL_MOUSEBUTTONDOWN_def SDL_MOUSEBUTTONUP_def
        updateFocus_null r6_def r1_def s5_def)
  obtain lost where lost: "calls (snd r1) = calls s5 @ map (\<lambda>w. FocusEvent w False) lost"
    "set lost \<subseteq> set (mFocusPath s)"
    unfolding r1_def using focusLost_calls [of cb "mFocusPath s" s5] by blast
  have r1: "mDragWidget (snd r1) = None" "\<not> mDragActive (snd r1)"
    "self (snd r1) = self s" "mMousePos (snd r1) = mMousePos s" "mModifiers (snd r1) = modifiers"
    using s5 by (simp_all add: r1_def focusLost_frame)
  let ?res = "catchException (bindOutcome r6 (\<lambda>_. mouseButtonDispatch cb button SDL_MOUSEBUTTONDOWN))"
  have res: "mouseButtonCallbackEvent cb button SDL_MOUSEBUTTONDOWN modifiers ticks s
               = Some (fst ?res, snd ?res)"
    using body by (simp add: mouseButtonCallbackEvent_def)
  have drag: "mDragWidget (snd ?res) = None \<and> \<not> mDragActive (snd ?res)"
    using r1
    by (auto simp add: r6_def bindOutcome_def catchException_def mouseButtonDispatch_def
        invoke_def split: outcome.splits)
  have clear: "mFocusPath (snd ?res) = [] \<and>
       calls (snd ?res) = calls s @ map (\<lambda>w. FocusEvent w False) lost
                           @ [MouseButtonEvent (self s) (mMousePos s) button True modifiers]"
    if "\<forall>w \<in> set (mFocusPath s). \<forall>ws. \<exists>b. fst (on_focusEvent cb w False ws) = Returns b"
  proof -
    have "fst r1 = Returns ()" unfolding r1_def using that by (rule focusLost_returns)
    then show ?thesis
      using r1 lost(1) s5
      by (auto simp add: r6_def bindOutcome_def catchException_def mouseButtonDispatch_def
          invoke_def split: outcome.splits)
  qed
  show ?thesis
    using res drag clear lost(2) by blast
qed

lemma nonModalScreen_open:
  "\<not> modalBlocks nonModalScreen"
  "findWidget demoCallbacks (widgets nonModalScreen) (mChildren nonModalScreen)
     (mMousePos nonModalScreen) = Some (self nonModalScreen)"
  by (simp_all add: modalBlocks_def nonModalScreen_def demoScreen_def demoCallbacks_def
      demoWidgets_def plainWidget_def hitTopLevel_def contains_def vsub_def isWindow_def)

text \<open>
  A press at (200,200), outside every child, in the scene without a modal window.
\<close>

theorem button_down_on_empty_space_witness:
  "\<not> modalBlocks nonModalScreen \<and>
   findWidget demoCallbacks (widgets nonModalScreen) (mChildren nonModalScreen)
     (mMousePos nonModalScreen) = Some (self nonModalScreen) \<and>
   (\<forall>w ws. fst (on_focusEvent demoCallbacks w False ws) = Returns False) \<and>
   (\<exists>r s' lost.
      mouseButtonCallbackEvent demoCallbacks 1 SDL_MOUSEBUTTONDOWN 64 1000 nonModalScreen
        = Some (r, s') \<and>
      mDragWidget s' = None \<and> \<not> mDragActive s' \<and> mFocusPath s' = [] \<and>
      calls s' = map (\<lambda>w. FocusEvent w False) lost @ [MouseButtonEvent 0 (200, 200) 1 True 64] \<and>
      set lost \<subseteq> {2, 1, 0})"
proof -
  have h: "\<forall>w ws. fst (on_focusEvent demoCallbacks w False ws) = Returns False"
    by (simp add: demoCallbacks_def widgetFocusEvent_def)
  show ?thesis
    using button_down_on_empty_space [OF nonModalScreen_open, of 1 64 1000] nonModalScreen_open h
    by (simp add: nonModalScreen_def demoScreen_def) blast
qed

text \<open>
  Claim C6 as stated fails: in the scene with the modal window the pointer is at (200,200),
  where the hit test returns the screen, yet the press is swallowed by the modal check: the
  focus path is still 2, 1, 0 and no focus-lost transition was fired.
\<close>

theorem button_down_swallowed_counterexample:
  "findWidget demoCallbacks (widgets demoScreen) (mChildren demoScreen) (mMousePos demoScreen)
     = Some (self demoScreen) \<and>
   mFocusPath demoScreen = [2, 1, 0] \<and>
   map_option (\<lambda>rs. (fst rs, mFocusPath (snd rs), calls (snd rs)))
     (mouseButtonCallbackEvent demoCallbacks 1 SDL_MOUSEBUTTONDOWN 0 1000 demoScreen)
     = Some (Returns False, [2, 1, 0], [])"
proof -
  have "modalBlocks demoScreen" using demoScreen_modal by (rule modalBlocks_secondFromTop)
  then have "mouseButtonCallbackEvent demoCallbacks 1 SDL_MOUSEBUTTONDOWN 0 1000 demoScreen
               = Some (Returns False, demoScreen\<lparr>mModifiers := 0, mLastInteraction := 1000\<rparr>)"
    by (simp add: mouseButtonCallbackEvent_def mouseButtonBody_def catchException_def)
  then show ?thesis
    by (simp add: demoScreen_def demoCallbacks_def hitTopLevel_def contains_def vsub_def
        demoWidgets_def plainWidget_def)
qed

lemma button_down_focus_handler_throws:
  "map_option (\<lambda>rs. (fst rs, mDragWidget (snd rs), mDragActive (snd rs), mFocusPath (snd rs),
                      calls (snd rs), cerr (snd rs)))
     (mouseButtonCallbackEvent throwingFocusCallbacks 1 SDL_MOUSEBUTTONDOWN 0 1000 nonModalScreen)
     = Some (Returns False, None, False, [2, 1, 0], [FocusEvent 2 False],
             [''Caught exception in event handler: focus handler failed''])"
  by code_simp

section \<open>Disposal and the drag invariant\<close>

text \<open>
  Disposing a widget of the focus path empties the path, and the button entry point keeps
  the drag invariant, as does disposing a window that is not the drag widget.
\<close>

lemma dispose_clears_focus_path:
  "window \<in> set (mFocusPath s) \<Longrightarrow> mFocusPath (disposeWindow window s) = []"
  by (simp add: disposeWindow_def removeChild_def Let_def)

lemma dispose_other_keeps_dragInvariant:
  "dragInvariant s \<Longrightarrow> mDragWidget s \<noteq> Some window \<Longrightarrow> dragInvariant (disposeWindow window s)"
  by (simp add: disposeWindow_def removeChild_def Let_def dragInvariant_def)

lemma updateFocus_null_drag:
  "updateFocus cb None s = Some rs \<Longrightarrow>
   mDragActive (snd rs) = mDragActive s \<and> mDragWidget (snd rs) = mDragWidget s"
  by (auto simp add: updateFocus_null bindOutcome_def focusLost_frame split: outcome.splits)

lemma mouseButton_keeps_dragInvariant:
  assumes "dragInvariant s"
    and "mouseButtonCallbackEvent cb button action modifiers ticks s = Some (r, s')"
  shows "dragInvariant s'"
proof -
  obtain r0 s0 where body: "mouseButtonBody cb button action
      (s\<lparr>mModifiers := modifiers, mLastInteraction := ticks\<rparr>) = Some (r0, s0)"
    and fin: "(r, s') = catchException (r0, s0)"
    using assms(2) by (auto simp add: mouseButtonCallbackEvent_def)
  have "dragInvariant s0"
    using body assms(1)
    by (auto simp add: mouseButtonBody_def Let_def dragInvariant_def releaseDrag_def
        bindOutcome_def invoke_def mouseButtonDispatch_def dragOrigin_def
        simp del: not_None_eq dest!: updateFocus_null_drag
        split: if_splits outcome.splits option.splits prod.splits)
  then show ?thesis
    using fin by (auto simp add: catchException_def dragInvariant_def split: outcome.splits)
qed

text \<open>
  Claim C8 at the disposal of the drag widget: window 1 is being dragged and is disposed.
  The drag widget becomes null and the focus path empty, but drag-active stays true, so the
  invariant is broken, and the next pointer move dereferences the null drag widget. The
  button-up branch of \<open>mouseButtonBody\<close> resets both members.
\<close>

theorem dispose_drag_widget_keeps_drag_active:
  "mDragActive draggingScreen \<and> mDragWidget draggingScreen = Some 1 \<and>
   mDragActive (disposeWindow 1 draggingScreen) \<and>
   mDragWidget (disposeWindow 1 draggingScreen) = None \<and>
   mFocusPath (disposeWindow 1 draggingScreen) = [] \<and>
   fst (cursorPosCallbackEvent demoCallbacks 5 5 1000 (disposeWindow 1 draggingScreen)) = Crash"
  by (simp add: disposeWindow_def removeChild_def draggingScreen_def nonModalScreen_def
      demoScreen_def cursorPosCallbackEvent_def cursorPosBody_def dragOrigin_def bindOutcome_def
      catchException_def demoCallbacks_def Let_def)

section \<open>Focusing the same widget twice\<close>

lemma ancestors_det: "ancestors ws x c \<Longrightarrow> ancestors ws x c' \<Longrightarrow> c = c'"
proof (induction arbitrary: c' rule: ancestors.induct)
  case ancestors_null
  then show ?case by (auto elim: ancestors.cases)
next
  case (ancestors_step w c)
  from ancestors_step.prems obtain d where "c' = w # d" "ancestors ws (w_parent (ws w)) d"
    by (auto elim: ancestors.cases)
  then show ?case using ancestors_step.IH by simp
qed

lemma ancestors_suffix:
  "ancestors ws x c \<Longrightarrow> v \<in> set c \<Longrightarrow> \<exists>c'. ancestors ws (Some v) c' \<and> length c' \<le> length c"
proof (induction rule: ancestors.induct)
  case ancestors_null
  then show ?case by simp
next
  case (ancestors_step w c)
  show ?case
  proof (cases "v = w")
    case True
    have "ancestors ws (Some w) (w # c)" using ancestors_step.hyps by (rule ancestors.ancestors_step)
    then show ?thesis using True by auto
  next
    case False
    then have "v \<in> set c" using ancestors_step.prems by simp
    then obtain c' where "ancestors ws (Some v) c'" "length c' \<le> length c"
      using ancestors_step.IH by blast
    then show ?thesis by auto
  qed
qed

lemma ancestors_distinct: "ancestors ws x c \<Longrightarrow> distinct c"
proof (induction rule: ancestors.induct)
  case ancestors_null
  show ?case by simp
next
  case (ancestors_step w c)
  have "w \<notin> set c"
  proof
    assume "w \<in> set c"
    then obtain c' where c': "ancestors ws (Some w) c'" "length c' \<le> length c"
      using ancestors_suffix [OF ancestors_step.hyps] by blast
    have "ancestors ws (Some w) (w # c)" using ancestors_step.hyps by (rule ancestors.ancestors_step)
    then have "c' = w # c" using c'(1) by (rule ancestors_det [symmetric])
    then show False using c'(2) by simp
  qed
  then show ?case using ancestors_step.IH by simp
qed

lemma ancestors_store:
  "ancestors ws x c \<Longrightarrow> (\<And>w. w_parent (ws' w) = w_parent (ws w)) \<Longrightarrow> ancestors ws' x c"
proof (induction rule: ancestors.induct)
  case ancestors_null
  show ?case by (rule ancestors.ancestors_null)
next
  case (ancestors_step w c)
  then have "ancestors ws' (w_parent (ws' w)) c" by simp
  then show ?case by (rule ancestors.ancestors_step)
qed

lemma walkUp_ancestors:
  assumes "walkUp ws x p win = Some y"
  shows "\<exists>c. ancestors ws x c \<and> fst y = p @ c"
proof (rule walkUp.raw_induct
    [where P = "\<lambda>ws x p win y. \<exists>c. ancestors ws x c \<and> fst y = p @ c", OF _ assms])
  fix f and ws :: "wid \<Rightarrow> widget" and x p win and y :: "wid list \<times> wid option"
  assume IH: "\<And>ws x p win y. f ws x p win = Some y \<Longrightarrow> \<exists>c. ancestors ws x c \<and> fst y = p @ c"
    and eq: "(case x of None \<Rightarrow> Some (p, win)
              | Some w \<Rightarrow> f ws (w_parent (ws w)) (p @ [w])
                           (if isWindow (ws w) then Some w else win)) = Some y"
  show "\<exists>c. ancestors ws x c \<and> fst y = p @ c"
  proof (cases x)
    case None
    then show ?thesis using eq by (auto intro: ancestors.ancestors_null)
  next
    case (Some w)
    then have "f ws (w_parent (ws w)) (p @ [w]) (if isWindow (ws w) then Some w else win) = Some y"
      using eq by simp
    then obtain c where "ancestors ws (w_parent (ws w)) c" "fst y = (p @ [w]) @ c"
      using IH by blast
    then show ?thesis using Some by (auto intro: ancestors.ancestors_step)
  qed
qed

lemma walkUp_returns:
  assumes "ancestors ws x c"
  shows "\<exists>win'. walkUp ws x p win = Some (p @ c, win') \<and> (win' = win \<or> (\<exists>w \<in> set c. win' = Some w))"
  using assms
proof (induction arbitrary: p win rule: ancestors.induct)
  case ancestors_null
  show ?case by (simp add: walkUp.simps)
next
  case (ancestors_step w c)
  obtain win' where
    w: "walkUp ws (w_parent (ws w)) (p @ [w]) (if isWindow (ws w) then Some w else win)
          = Some ((p @ [w]) @ c, win')"
    and "win' = (if isWindow (ws w) then Some w else win) \<or> (\<exists>v \<in> set c. win' = Some v)"
    using ancestors_step.IH by blast
  then have "win' = win \<or> (\<exists>v \<in> set (w # c). win' = Some v)"
    by (auto split: if_splits)
  moreover have "walkUp ws (Some w) p win = Some (p @ w # c, win')"
    using w by (subst walkUp.simps) simp
  ultimately show ?case by blast
qed

lemma owns_store:
  assumes "\<And>x. w_kind (ws' x) = w_kind (ws x) \<and> w_parentWindow (ws' x) = w_parentWindow (ws x)"
  shows "owns ws' S = owns ws S"
  using assms by (simp add: owns_def isPopup_def)

lemma owns_mono: "S \<subseteq> T \<Longrightarrow> owns ws S \<subseteq> owns ws T"
  by (auto simp add: owns_def)

lemma focusGained_base:
  assumes "on_focusEvent cb = widgetFocusEvent"
  shows "fst (focusGained cb p s) = Returns () \<and>
         calls (snd (focusGained cb p s)) = calls s @ map (\<lambda>w. FocusEvent w True) p \<and>
         mFocusPath (snd (focusGained cb p s)) = mFocusPath s \<and>
         mChildren (snd (focusGained cb p s)) = mChildren s"
  using assms
  by (induction p arbitrary: s)
    (simp_all add: fst_bindOutcome snd_bindOutcome widgetFocusEvent_def)

lemma focusGained_widgets:
  assumes "on_focusEvent cb = widgetFocusEvent"
  shows "w_parent (widgets (snd (focusGained cb p s)) x) = w_parent (widgets s x) \<and>
         w_kind (widgets (snd (focusGained cb p s)) x) = w_kind (widgets s x) \<and>
         w_parentWindow (widgets (snd (focusGained cb p s)) x) = w_parentWindow (widgets s x) \<and>
         w_focused (widgets (snd (focusGained cb p s)) x) = (x \<in> set p \<or> w_focused (widgets s x))"
  using assms
  by (induction p arbitrary: s)
    (auto simp add: snd_bindOutcome widgetFocusEvent_def)

lemma focusLost_base:
  assumes "on_focusEvent cb = widgetFocusEvent"
  shows "fst (focusLost cb p s) = Returns ()"
  by (rule focusLost_returns) (auto simp add: assms widgetFocusEvent_def)

lemma focusLost_widgets:
  assumes "on_focusEvent cb = widgetFocusEvent"
  shows "w_parent (widgets (snd (focusLost cb p s)) x) = w_parent (widgets s x) \<and>
         w_kind (widgets (snd (focusLost cb p s)) x) = w_kind (widgets s x) \<and>
         w_parentWindow (widgets (snd (focusLost cb p s)) x) = w_parentWindow (widgets s x)"
  using assms
  by (induction p arbitrary: s)
    (auto simp add: snd_bindOutcome widgetFocusEvent_def)

lemma focusLost_all:
  assumes "on_focusEvent cb = widgetFocusEvent"
    and "distinct p" and "\<And>x. x \<in> set p \<Longrightarrow> w_focused (widgets s x)"
  shows "calls (snd (focusLost cb p s)) = calls s @ map (\<lambda>w. FocusEvent w False) p"
  using assms(2,3)
proof (induction p arbitrary: s)
  case Nil
  show ?case by simp
next
  case (Cons w p)
  let ?s = "snd (focusEvent cb w False s)"
  have "\<And>x. x \<in> set p \<Longrightarrow> w_focused (widgets ?s x)"
    using Cons.prems assms(1) by (auto simp add: widgetFocusEvent_def)
  then have "calls (snd (focusLost cb p ?s)) = calls ?s @ map (\<lambda>w. FocusEvent w False) p"
    using Cons.IH [of ?s] Cons.prems(1) by simp
  then show ?case
    using Cons.prems(2) [of w] assms(1) by (simp add: snd_bindOutcome widgetFocusEvent_def)
qed

lemma updateFocus_returns:
  assumes base: "on_focusEvent cb = widgetFocusEvent"
    and anc: "ancestors (widgets s) (Some W) c"
    and acyc: "acyclic (owns (widgets s) (set (mChildren s) \<union> set c))"
  shows "\<exists>s'. updateFocus cb (Some W) s = Some (Returns (), s') \<and> mFocusPath s' = c \<and>
              set (mChildren s') \<subseteq> set (mChildren s) \<union> set c \<and>
              (\<forall>x. w_parent (widgets s' x) = w_parent (widgets s x) \<and>
                   w_kind (widgets s' x) = w_kind (widgets s x) \<and>
                   w_parentWindow (widgets s' x) = w_parentWindow (widgets s x)) \<and>
              (\<forall>x. x \<in> set c \<longrightarrow> w_focused (widgets s' x)) \<and>
              calls s' = calls (snd (focusLost cb (mFocusPath s) s))
                           @ map (\<lambda>w. FocusEvent w True) (rev c)"
proof -
  let ?a = "snd (focusLost cb (mFocusPath s) s)"
  let ?s3 = "?a\<lparr>mFocusPath := c\<rparr>"
  let ?g = "snd (focusGained cb (rev c) ?s3)"
  have r1: "fst (focusLost cb (mFocusPath s) s) = Returns ()" using base by (rule focusLost_base)
  have wa: "\<And>x. w_parent (widgets ?a x) = w_parent (widgets s x) \<and>
                 w_kind (widgets ?a x) = w_kind (widgets s x) \<and>
                 w_parentWindow (widgets ?a x) = w_parentWindow (widgets s x)"
    using focusLost_widgets [OF base] by simp
  have "ancestors (widgets ?a) (Some W) c" by (rule ancestors_store [OF anc]) (simp add: wa)
  then obtain win' where walk: "walkUp (widgets ?a) (Some W) [] None = Some (c, win')"
    and win': "win' = None \<or> (\<exists>w \<in> set c. win' = Some w)"
    using walkUp_returns [of "widgets ?a" "Some W" c "[]" None] by auto
  have g: "fst (focusGained cb (rev c) ?s3) = Returns ()"
    "calls ?g = calls ?a @ map (\<lambda>w. FocusEvent w True) (rev c)"
    "mFocusPath ?g = c" "mChildren ?g = mChildren s"
    using focusGained_base [OF base, of "rev c" ?s3] by (simp_all add: focusLost_frame)
  have wg: "\<And>x. w_parent (widgets ?g x) = w_parent (widgets s x) \<and>
                 w_kind (widgets ?g x) = w_kind (widgets s x) \<and>
                 w_parentWindow (widgets ?g x) = w_parentWindow (widgets s x)"
    using focusGained_widgets [OF base, of "rev c" ?s3] wa by simp
  have fg: "\<And>x. x \<in> set c \<Longrightarrow> w_focused (widgets ?g x)"
    using focusGained_widgets [OF base, of "rev c" ?s3] by simp
  have unfold: "updateFocus cb (Some W) s =
      (case win' of None \<Rightarrow> Some (Returns (), ?g)
       | Some win \<Rightarrow> map_option (\<lambda>s5. (Returns (), s5)) (Screen_moveWindowToFront win ?g))"
    using r1 walk g(1) by (cases win') (simp_all add: updateFocus_def Let_def)
  show ?thesis
  proof (cases win')
    case None
    then show ?thesis using unfold g wg fg by auto
  next
    case (Some w)
    then have wc: "w \<in> set c" using win' by auto
    let ?S = "insert w (set (mChildren s))"
    have "owns (widgets ?g) ?S = owns (widgets s) ?S" by (rule owns_store) (simp add: wg)
    moreover have "owns (widgets s) ?S \<subseteq> owns (widgets s) (set (mChildren s) \<union> set c)"
      using wc by (intro owns_mono) auto
    ultimately have "acyclic (owns (widgets ?g) ?S)" using acyc by (simp add: acyclic_subset)
    moreover have "finite ?S" by simp
    moreover have "set (removeAll w (mChildren s) @ [w]) = ?S" by auto
    ultimately obtain cs' where
      loop: "popupLoop (widgets ?g) w (removeAll w (mChildren s) @ [w]) = Some cs'"
      using popupLoop_terminates [of "widgets ?g" ?S "removeAll w (mChildren s) @ [w]" w] by auto
    have "set cs' = ?S" using popupLoop_set [OF loop] by auto
    then have sub: "set cs' \<subseteq> set (mChildren s) \<union> set c" using wc by auto
    have "updateFocus cb (Some W) s = Some (Returns (), ?g\<lparr>mChildren := cs'\<rparr>)"
      using unfold Some loop g(4)
      by (simp add: Screen_moveWindowToFront_def moveWindowToFront_def)
    then show ?thesis using g wg fg sub by auto
  qed
qed

text \<open>
  Claim C4, as the code has it. \<open>updateFocus\<close> compares no paths: each call fires the
  focus-lost pass on the stored path and then one focus-gained transition on every entry of
  the new path, root first. Let W have the finite chain of ancestors \<open>c\<close>, let the ownership
  of popups among the children and that chain have no cycle, and let the widgets store their
  focus flag as the base class does. Then both calls return; the path after each is \<open>c\<close>,
  without repetition; and the second call fires a focus-lost transition on every entry of the
  path and the focus-gained transitions again, so that every ancestor receives two of them
  across both calls.
\<close>

theorem updateFocus_twice:
  assumes base: "on_focusEvent cb = widgetFocusEvent"
    and anc: "ancestors (widgets s) (Some W) c"
    and acyc: "acyclic (owns (widgets s) (set (mChildren s) \<union> set c))"
  shows "\<exists>s1 s2. updateFocus cb (Some W) s = Some (Returns (), s1) \<and>
           updateFocus cb (Some W) s1 = Some (Returns (), s2) \<and>
           mFocusPath s1 = c \<and> mFocusPath s2 = c \<and> distinct c \<and>
           (\<exists>lost. calls s1 = calls s @ map (\<lambda>w. FocusEvent w False) lost
                                @ map (\<lambda>w. FocusEvent w True) (rev c)) \<and>
           calls s2 = calls s1 @ map (\<lambda>w. FocusEvent w False) c
                        @ map (\<lambda>w. FocusEvent w True) (rev c)"
proof -
  obtain s1 where first: "updateFocus cb (Some W) s = Some (Returns (), s1)"
    and p1: "mFocusPath s1 = c"
    and ch1: "set (mChildren s1) \<subseteq> set (mChildren s) \<union> set c"
    and ws1: "\<And>x. w_parent (widgets s1 x) = w_parent (widgets s x) \<and>
                   w_kind (widgets s1 x) = w_kind (widgets s x) \<and>
                   w_parentWindow (widgets s1 x) = w_parentWindow (widgets s x)"
    and foc: "\<And>x. x \<in> set c \<Longrightarrow> w_focused (widgets s1 x)"
    and c1: "calls s1 = calls (snd (focusLost cb (mFocusPath s) s))
                           @ map (\<lambda>w. FocusEvent w True) (rev c)"
    using updateFocus_returns [OF base anc acyc] by blast
  have dist: "distinct c" using anc by (rule ancestors_distinct)
  have anc1: "ancestors (widgets s1) (Some W) c" by (rule ancestors_store [OF anc]) (simp add: ws1)
  have "owns (widgets s1) (set (mChildren s1) \<union> set c)
          = owns (widgets s) (set (mChildren s1) \<union> set c)"
    by (rule owns_store) (simp add: ws1)
  moreover have "owns (widgets s) (set (mChildren s1) \<union> set c)
                   \<subseteq> owns (widgets s) (set (mChildren s) \<union> set c)"
    using ch1 by (intro owns_mono) auto
  ultimately have acyc1: "acyclic (owns (widgets s1) (set (mChildren s1) \<union> set c))"
    using acyc by (simp add: acyclic_subset)
  obtain s2 where second: "updateFocus cb (Some W) s1 = Some (Returns (), s2)"
    and p2: "mFocusPath s2 = c"
    and c2: "calls s2 = calls (snd (focusLost cb (mFocusPath s1) s1))
                           @ map (\<lambda>w. FocusEvent w True) (rev c)"
    using updateFocus_returns [OF base anc1 acyc1] by blast
  have lost2: "calls (snd (focusLost cb (mFocusPath s1) s1))
                 = calls s1 @ map (\<lambda>w. FocusEvent w False) c"
    unfolding p1 using base dist foc by (rule focusLost_all)
  obtain lost where "calls (snd (focusLost cb (mFocusPath s) s))
                       = calls s @ map (\<lambda>w. FocusEvent w False) lost"
    using focusLost_calls [of cb "mFocusPath s" s] by blast
  then have "calls s1 = calls s @ map (\<lambda>w. FocusEvent w False) lost
                          @ map (\<lambda>w. FocusEvent w True) (rev c)"
    using c1 by simp
  then show ?thesis using first second p1 p2 dist c2 lost2 by auto
qed

text \<open>
  Claim C4 as stated fails: focusing the text box 2 twice in a row, the second call fires
  three focus-lost transitions (on 2, 1 and 0) and three further focus-gained transitions, so
  each of 0, 1 and 2 gains the focus twice across the two calls.
\<close>

theorem updateFocus_twice_counterexample:
  "map_option (\<lambda>rs. (fst rs, mFocusPath (snd rs), calls (snd rs)))
     (Option.bind (updateFocus demoCallbacks (Some 2) demoScreen)
        (\<lambda>rs. updateFocus demoCallbacks (Some 2) (snd rs)))
   = Some (Returns (), [2, 1, 0],
       [FocusEvent 2 False, FocusEvent 1 False,
        FocusEvent 0 True, FocusEvent 1 True, FocusEvent 2 True,
        FocusEvent 2 False, FocusEvent 1 False, FocusEvent 0 False,
        FocusEvent 0 True, FocusEvent 1 True, FocusEvent 2 True])"
  by code_simp

lemma demoScreen_chain: "ancestors (widgets demoScreen) (Some 2) [2, 1, 0]"
proof -
  have ws: "widgets demoScreen = demoWidgets" by (simp add: demoScreen_def)
  have "ancestors demoWidgets (w_parent (demoWidgets 0)) []"
    by (simp add: demoWidgets_def plainWidget_def ancestors_null)
  then have "ancestors demoWidgets (Some 0) [0]" by (rule ancestors_step)
  then have "ancestors demoWidgets (w_parent (demoWidgets 1)) [0]"
    by (simp add: demoWidgets_def plainWidget_def)
  then have "ancestors demoWidgets (Some 1) [1, 0]" by (rule ancestors_step)
  then have "ancestors demoWidgets (w_parent (demoWidgets 2)) [1, 0]"
    by (simp add: demoWidgets_def plainWidget_def)
  then have "ancestors demoWidgets (Some 2) [2, 1, 0]" by (rule ancestors_step)
  then show ?thesis using ws by simp
qed

lemma demoScreen_acyclic:
  "acyclic (owns (widgets demoScreen) (set (mChildren demoScreen) \<union> set [2, 1, 0]))"
  by (rule acyclicI_order [where f = "\<lambda>i. if i = 1 then 0 else (1::nat)"])
    (auto simp add: owns_def demoScreen_def demoWidgets_def plainWidget_def isPopup_def
      split: if_splits)

text \<open>
  The scene meets the conditions for the text box 2, and the second call adds the six
  transitions.
\<close>

theorem updateFocus_twice_witness:
  "on_focusEvent demoCallbacks = widgetFocusEvent \<and>
   ancestors (widgets demoScreen) (Some 2) [2, 1, 0] \<and>
   acyclic (owns (widgets demoScreen) (set (mChildren demoScreen) \<union> set [2, 1, 0])) \<and>
   (\<exists>s1 s2. updateFocus demoCallbacks (Some 2) demoScreen = Some (Returns (), s1) \<and>
      updateFocus demoCallbacks (Some 2) s1 = Some (Returns (), s2) \<and>
      mFocusPath s1 = [2, 1, 0] \<and> mFocusPath s2 = [2, 1, 0] \<and>
      calls s2 = calls s1 @ [FocusEvent 2 False, FocusEvent 1 False, FocusEvent 0 False,
                             FocusEvent 0 True, FocusEvent 1 True, FocusEvent 2 True])"
proof -
  have base: "on_focusEvent demoCallbacks = widgetFocusEvent"
    by (simp add: demoCallbacks_def)
  show ?thesis
    using updateFocus_twice [OF base demoScreen_chain demoScreen_acyclic] base demoScreen_chain
      demoScreen_acyclic
    by auto
qed

end
